theory Spec2Isabelle
  imports Main "HOL-Library.Product_Lexorder"
begin

section \<open>Dates\<close>

text \<open>
  The code works with \<^verbatim>\<open>datetime.date\<close> values. Python orders dates and adds
  \<^verbatim>\<open>timedelta(days=1)\<close> through the proleptic Gregorian ordinal
  (\<^verbatim>\<open>date.toordinal()\<close>, 0001-01-01 being day 1), so a stored date is modelled
  by that ordinal. Where the code reads the fields of a date or builds one from a
  year, a month and a day, the value is the record \<open>pydate\<close>, made by \<open>date_new\<close>,
  which raises as the constructor \<^verbatim>\<open>date(y, m, d)\<close> does.
\<close>

type_synonym date = int

datatype error =
    NotFoundError      \<comment> \<open>HTTPException 404\<close>
  | ConflictError      \<comment> \<open>HTTPException 409\<close>
  | ValidationError    \<comment> \<open>HTTPException 422\<close>
  | ValueError         \<comment> \<open>uncaught ValueError of the standard library\<close>
  | OverflowError      \<comment> \<open>uncaught OverflowError of date arithmetic\<close>
  | IllegalMonthError  \<comment> \<open>uncaught calendar.IllegalMonthError\<close>
  | IndexError         \<comment> \<open>uncaught IndexError of list indexing\<close>
  | DataError          \<comment> \<open>uncaught DBAPIError: the database refuses a value\<close>
  | MissingGreenlet    \<comment> \<open>uncaught MissingGreenlet: an expired attribute is read\<close>

definition MINYEAR :: int where "MINYEAR = 1"
definition MAXYEAR :: int where "MAXYEAR = 9999"

text \<open>\<^verbatim>\<open>date.max.toordinal()\<close>, the ordinal of 9999-12-31.\<close>
definition MAXORDINAL :: int where "MAXORDINAL = 3652059"

definition is_leap :: "int \<Rightarrow> bool" where
  "is_leap y = (y mod 4 = 0 \<and> (y mod 100 \<noteq> 0 \<or> y mod 400 = 0))"

definition DAYS_IN_MONTH :: "int list" where
  "DAYS_IN_MONTH = [-1, 31, 28, 31, 30, 31, 30, 31, 31, 30, 31, 30, 31]"

definition DAYS_BEFORE_MONTH :: "int list" where
  "DAYS_BEFORE_MONTH = [-1, 0, 31, 59, 90, 120, 151, 181, 212, 243, 273, 304, 334]"

definition days_before_year :: "int \<Rightarrow> int" where
  "days_before_year y = (y - 1) * 365 + (y - 1) div 4 - (y - 1) div 100 + (y - 1) div 400"

text \<open>The two table readers are only called with a month in 1..12 (Python asserts it).\<close>

definition days_in_month :: "int \<Rightarrow> int \<Rightarrow> int" where
  "days_in_month y m = (if m = 2 \<and> is_leap y then 29 else DAYS_IN_MONTH ! nat m)"

definition days_before_month :: "int \<Rightarrow> int \<Rightarrow> int" where
  "days_before_month y m = DAYS_BEFORE_MONTH ! nat m + (if m > 2 \<and> is_leap y then 1 else 0)"

definition ymd2ord :: "int \<Rightarrow> int \<Rightarrow> int \<Rightarrow> int" where
  "ymd2ord y m d = days_before_year y + days_before_month y m + d"

record pydate =
  year :: int
  month :: int
  day :: int

text \<open>\<^verbatim>\<open>date(y, m, d)\<close>: the field check of the constructor, then the value.\<close>

definition date_new :: "int \<Rightarrow> int \<Rightarrow> int \<Rightarrow> error + pydate" where
  "date_new y m d =
     (if \<not> (MINYEAR \<le> y \<and> y \<le> MAXYEAR) then Inl ValueError
      else if \<not> (1 \<le> m \<and> m \<le> 12) then Inl ValueError
      else if \<not> (1 \<le> d \<and> d \<le> days_in_month y m) then Inl ValueError
      else Inr \<lparr>year = y, month = m, day = d\<rparr>)"

definition toordinal :: "pydate \<Rightarrow> date" where
  "toordinal p = ymd2ord (year p) (month p) (day p)"

text \<open>\<^verbatim>\<open>date.weekday()\<close> on the ordinal: Monday is 0, Sunday is 6.\<close>

definition weekday_of :: "date \<Rightarrow> int" where
  "weekday_of n = (n + 6) mod 7"

subsection \<open>The month grid of the standard calendar module\<close>

definition isleap :: "int \<Rightarrow> bool" where
  "isleap y = (y mod 4 = 0 \<and> (y mod 100 \<noteq> 0 \<or> y mod 400 = 0))"

definition mdays :: "int list" where
  "mdays = [0, 31, 28, 31, 30, 31, 30, 31, 31, 30, 31, 30, 31]"

text \<open>\<^verbatim>\<open>calendar.weekday(year, month, day)\<close>; a year outside the date range is first
  mapped into it.\<close>

definition weekday :: "int \<Rightarrow> int \<Rightarrow> int \<Rightarrow> error + int" where
  "weekday y m d =
     (let y' = (if \<not> (MINYEAR \<le> y \<and> y \<le> MAXYEAR) then 2000 + y mod 400 else y)
      in case date_new y' m d of
           Inl e \<Rightarrow> Inl e
         | Inr p \<Rightarrow> Inr (weekday_of (toordinal p)))"

definition monthlen :: "int \<Rightarrow> int \<Rightarrow> int" where
  "monthlen y m = mdays ! nat m + (if m = 2 \<and> isleap y then 1 else 0)"

definition monthrange :: "int \<Rightarrow> int \<Rightarrow> error + (int \<times> int)" where
  "monthrange y m =
     (if \<not> (1 \<le> m \<and> m \<le> 12) then Inl IllegalMonthError
      else case weekday y m 1 of
             Inl e \<Rightarrow> Inl e
           | Inr day1 \<Rightarrow> Inr (day1, monthlen y m))"

definition prevmonth :: "int \<Rightarrow> int \<Rightarrow> int \<times> int" where
  "prevmonth y m = (if m = 1 then (y - 1, 12) else (y, m - 1))"

definition nextmonth :: "int \<Rightarrow> int \<Rightarrow> int \<times> int" where
  "nextmonth y m = (if m = 12 then (y + 1, 1) else (y, m + 1))"

text \<open>\<^verbatim>\<open>Calendar(firstweekday=0).itermonthdays3\<close>: the (year, month, day) triples of
  the days before the month that complete its first week, of the month, and of the
  days after it that complete its last week.\<close>

definition firstweekday :: int where "firstweekday = 0"

definition itermonthdays3 :: "int \<Rightarrow> int \<Rightarrow> error + (int \<times> int \<times> int) list" where
  "itermonthdays3 y m =
     (case monthrange y m of
        Inl e \<Rightarrow> Inl e
      | Inr (day1, ndays) \<Rightarrow>
          (let days_before = (day1 - firstweekday) mod 7;
               days_after = (firstweekday - day1 - ndays) mod 7;
               (py, pm) = prevmonth y m;
               end = monthlen py pm + 1;
               (ny, nm) = nextmonth y m
           in Inr (map (\<lambda>d. (py, pm, d)) [end - days_before ..end - 1]
                 @ map (\<lambda>d. (y, m, d)) [1 .. ndays]
                 @ map (\<lambda>d. (ny, nm, d)) [1 .. days_after])))"

text \<open>\<^verbatim>\<open>itermonthdates\<close> turns each triple into a date; the first triple outside the
  date range raises.\<close>

fun dates_of :: "(int \<times> int \<times> int) list \<Rightarrow> error + pydate list" where
  "dates_of [] = Inr []"
| "dates_of ((y, m, d) # ts) =
     (case date_new y m d of
        Inl e \<Rightarrow> Inl e
      | Inr p \<Rightarrow> (case dates_of ts of Inl e \<Rightarrow> Inl e | Inr ps \<Rightarrow> Inr (p # ps)))"

definition itermonthdates :: "int \<Rightarrow> int \<Rightarrow> error + pydate list" where
  "itermonthdates y m =
     (case itermonthdays3 y m of Inl e \<Rightarrow> Inl e | Inr ts \<Rightarrow> dates_of ts)"

text \<open>\<^verbatim>\<open>[dates[i:i+7] for i in range(0, len(dates), 7)]\<close>\<close>

function chunks7 :: "'a list \<Rightarrow> 'a list list" where
  "chunks7 xs = (if xs = [] then [] else take 7 xs # chunks7 (drop 7 xs))"
  by pat_completeness auto
termination
  by (relation "measure length") auto

declare chunks7.simps [simp del]

definition monthdatescalendar :: "int \<Rightarrow> int \<Rightarrow> error + pydate list list" where
  "monthdatescalendar y m =
     (case itermonthdates y m of Inl e \<Rightarrow> Inl e | Inr dates \<Rightarrow> Inr (chunks7 dates))"

section \<open>The stored entities (models.py) and the request bodies (schemas.py)\<close>

datatype BookingStatus = pending | approved | declined | cancelled

text \<open>
  A row of \<^verbatim>\<open>customers\<close> and a row of \<^verbatim>\<open>bookings\<close>. The primary keys are
  \<open>cid\<close> and \<open>bid\<close> (\<^verbatim>\<open>id\<close> in the source). The columns \<^verbatim>\<open>created_at\<close> and
  \<^verbatim>\<open>updated_at\<close>, which the database server fills in, are left out; \<open>approved_at\<close>,
  which the code sets, is a number of seconds. \<open>b_notes\<close> is the column
  \<^verbatim>\<open>notes\<close>. The column \<^verbatim>\<open>amount\<close> is \<^verbatim>\<open>DECIMAL(10, 2)\<close>: the model stores
  it as a whole number of hundredths. Text is taken to be free of the character
  NUL, which the database does not store.

  The amount of a request is a \<^verbatim>\<open>float\<close> that is at least 0, and the handler
  passes \<^verbatim>\<open>Decimal(str(payload.amount))\<close> on: \<open>Decimal c e\<close> is the number
  \<open>c * 10 ^ e\<close> that this reads from the digits of the float, and \<open>Infinity\<close> is
  what it reads from \<^verbatim>\<open>inf\<close>.
\<close>

datatype decimal = Decimal int int | Infinity

record customer =
  cid :: int
  email :: string
  full_name :: string

record booking =
  bid :: int
  customer_id :: int
  resource_id :: string
  status :: BookingStatus
  start_at :: date
  end_at :: date
  requested_by :: string
  approved_by :: "string option"
  amount :: "int option"
  b_notes :: "string option"
  approved_at :: "int option"

record CustomerCreate =
  cc_email :: string
  cc_full_name :: string

record BookingCreate =
  bc_customer :: CustomerCreate
  bc_start_at :: date
  bc_end_at :: date
  bc_requested_by :: string
  bc_notes :: "string option"
  bc_resource_id :: string
  bc_amount :: "decimal option"

record BookingDecision =
  bd_actor :: string
  bd_note :: "string option"

section \<open>The database and the session of one request (database.py)\<close>

text \<open>
  The database holds the two tables and the two sequences that number their rows.
  \<open>get_db\<close> opens one session for each request and closes it when the handler
  returns or raises. A session sees its own changes in \<open>work\<close>; \<open>commit\<close> makes
  them the stored rows; closing the session drops what was not committed. A number
  taken from a sequence is not given back.
\<close>

record db =
  customers :: "customer list"
  bookings :: "booking list"
  customer_seq :: int
  booking_seq :: int

record session =
  committed :: db
  work :: db

definition empty_db :: db where
  "empty_db = \<lparr>customers = [], bookings = [], customer_seq = 0, booking_seq = 0\<rparr>"

definition commit :: "session \<Rightarrow> session" where
  "commit s = s\<lparr>committed := work s\<rparr>"

definition close_session :: "session \<Rightarrow> db" where
  "close_session s =
     (committed s)\<lparr>customer_seq := customer_seq (work s), booking_seq := booking_seq (work s)\<rparr>"

definition get_db :: "(session \<Rightarrow> (error + 'a) \<times> session) \<Rightarrow> db \<Rightarrow> (error + 'a) \<times> db" where
  "get_db handler d =
     (case handler \<lparr>committed = d, work = d\<rparr> of (r, s) \<Rightarrow> (r, close_session s))"

section \<open>The booking lifecycle (routers/bookings.py)\<close>

text \<open>\<^verbatim>\<open>str.lower()\<close> on the ASCII letters; an address with other cased letters is
  outside the model.\<close>

definition lower_char :: "char \<Rightarrow> char" where
  "lower_char c =
     (let n = (of_char c :: nat) in if 65 \<le> n \<and> n \<le> 90 then char_of (n + 32) else c)"

definition lower :: "string \<Rightarrow> string" where
  "lower s = map lower_char s"

text \<open>The unique index on \<^verbatim>\<open>email\<close> leaves \<^verbatim>\<open>scalar_one_or_none\<close> at most one row.\<close>

definition upsert_customer :: "CustomerCreate \<Rightarrow> session \<Rightarrow> customer \<times> session" where
  "upsert_customer payload s =
     (let normalized_email = lower (cc_email payload); w = work s
      in case find (\<lambda>c. email c = normalized_email) (customers w) of
           None \<Rightarrow>
             (let c = \<lparr>cid = customer_seq w + 1, email = normalized_email,
                       full_name = cc_full_name payload\<rparr>
              in (c, s\<lparr>work := w\<lparr>customers := customers w @ [c],
                                  customer_seq := customer_seq w + 1\<rparr>\<rparr>))
         | Some c \<Rightarrow>
             (let c' = c\<lparr>full_name := cc_full_name payload\<rparr>
              in (c', s\<lparr>work := w\<lparr>customers :=
                          map (\<lambda>x. if cid x = cid c then c' else x) (customers w)\<rparr>\<rparr>)))"

definition ensure_no_conflict ::
  "session \<Rightarrow> string \<Rightarrow> date \<Rightarrow> date \<Rightarrow> int option \<Rightarrow> error + unit" where
  "ensure_no_conflict s rid start end exclude_booking_id =
     (let stmt = (\<lambda>b. resource_id b = rid \<and> status b = approved
                       \<and> end_at b \<ge> start \<and> start_at b \<le> end);
          stmt' = (case exclude_booking_id of
                     None \<Rightarrow> stmt
                   | Some x \<Rightarrow> (\<lambda>b. stmt b \<and> bid b \<noteq> x));
          conflict = (case take 1 (filter stmt' (bookings (work s))) of
                        [] \<Rightarrow> None
                      | b # _ \<Rightarrow> Some b)
      in if conflict \<noteq> None then Inl ConflictError else Inr ())"

text \<open>
  What the table \<^verbatim>\<open>bookings\<close> does with the values of an INSERT. A column
  \<^verbatim>\<open>String(n)\<close> stores a text of at most \<open>n\<close> characters; of a longer one it drops
  the characters after the \<open>n\<close>-th when they are all spaces, and refuses it
  otherwise. The column \<^verbatim>\<open>DECIMAL(10, 2)\<close> rounds a number to hundredths, a half
  away from zero, and refuses it when the result has more than eight digits before
  the point, or when it is infinite. A refusal is raised by \<^verbatim>\<open>db.commit()\<close>.
\<close>

definition varchar :: "nat \<Rightarrow> string \<Rightarrow> error + string" where
  "varchar n s =
     (if length s \<le> n then Inr s
      else if list_all (\<lambda>c. c = CHR '' '') (drop n s) then Inr (take n s)
      else Inl DataError)"

definition hundredths :: "int \<Rightarrow> int \<Rightarrow> int" where
  "hundredths c e =
     (if - 2 \<le> e then c * 10 ^ nat (e + 2)
      else (let k = 10 ^ nat (- e - 2) in sgn c * ((2 * \<bar>c\<bar> + k) div (2 * k))))"

definition numeric_10_2 :: "decimal option \<Rightarrow> error + int option" where
  "numeric_10_2 x =
     (case x of
        None \<Rightarrow> Inr None
      | Some Infinity \<Rightarrow> Inl DataError
      | Some (Decimal c e) \<Rightarrow>
          (let h = hundredths c e
           in if \<bar>h\<bar> < 10 ^ 10 then Inr (Some h) else Inl DataError))"

text \<open>The row that the INSERT of \<^verbatim>\<open>models.Booking(...)\<close> stores under the number
  \<open>new_id\<close>, which is the row that \<^verbatim>\<open>db.refresh(booking)\<close> reads back, or the
  refusal.\<close>

definition insert_booking :: "customer \<Rightarrow> BookingCreate \<Rightarrow> int \<Rightarrow> error + booking" where
  "insert_booking customer payload new_id =
     (case varchar 64 (bc_resource_id payload) of
        Inl e \<Rightarrow> Inl e
      | Inr rid \<Rightarrow>
          (case numeric_10_2 (bc_amount payload) of
             Inl e \<Rightarrow> Inl e
           | Inr amount_value \<Rightarrow>
               Inr \<lparr>bid = new_id,
                    customer_id = cid customer,
                    resource_id = rid,
                    status = pending,
                    start_at = bc_start_at payload,
                    end_at = bc_end_at payload,
                    requested_by = bc_requested_by payload,
                    approved_by = None,
                    amount = amount_value,
                    b_notes = bc_notes payload,
                    approved_at = None\<rparr>))"

text \<open>
  \<^verbatim>\<open>_booking_read\<close> reads the booking and, through \<^verbatim>\<open>CustomerRead\<close>, the column
  \<^verbatim>\<open>updated_at\<close> of its customer. That column has \<^verbatim>\<open>onupdate=func.now()\<close>: when
  \<^verbatim>\<open>_upsert_customer\<close> has changed the name of a customer already stored, the
  UPDATE leaves the attribute expired on the object, and reading it outside a
  database call raises. \<open>renames\<close> tells whether the request changes the name of a
  stored customer; assigning the name it already has sends no UPDATE.
\<close>

definition renames :: "CustomerCreate \<Rightarrow> session \<Rightarrow> bool" where
  "renames payload s =
     (case find (\<lambda>c. email c = lower (cc_email payload)) (customers (work s)) of
        None \<Rightarrow> False
      | Some c \<Rightarrow> full_name c \<noteq> cc_full_name payload)"

definition booking_read :: "bool \<Rightarrow> booking \<Rightarrow> error + booking" where
  "booking_read updated_at_expired b = (if updated_at_expired then Inl MissingGreenlet else Inr b)"

text \<open>
  The handler of \<^verbatim>\<open>POST /bookings\<close>. When the INSERT is refused nothing of the
  request is committed, and the model leaves the sequence of the bookings as it
  was. When \<^verbatim>\<open>_booking_read\<close> raises, the booking is already committed.
\<close>

definition create_booking :: "BookingCreate \<Rightarrow> session \<Rightarrow> (error + booking) \<times> session" where
  "create_booking payload s =
     (if bc_start_at payload > bc_end_at payload then (Inl ValidationError, s)
      else
        (case upsert_customer (bc_customer payload) s of
           (customer, s1) \<Rightarrow>
             (case ensure_no_conflict s1 (bc_resource_id payload) (bc_start_at payload)
                     (bc_end_at payload) None of
                Inl e \<Rightarrow> (Inl e, s1)
              | Inr _ \<Rightarrow>
                  (let w = work s1
                   in case insert_booking customer payload (booking_seq w + 1) of
                        Inl e \<Rightarrow> (Inl e, s1)
                      | Inr b \<Rightarrow>
                          (booking_read (renames (bc_customer payload) s) b,
                           commit (s1\<lparr>work := w\<lparr>bookings := bookings w @ [b],
                                                   booking_seq := booking_seq w + 1\<rparr>\<rparr>))))))"

text \<open>\<open>bid\<close> is the primary key, so \<^verbatim>\<open>scalar_one_or_none\<close> sees at most one row.\<close>

definition get_booking :: "session \<Rightarrow> int \<Rightarrow> error + booking" where
  "get_booking s booking_id =
     (case find (\<lambda>b. bid b = booking_id) (bookings (work s)) of
        None \<Rightarrow> Inl NotFoundError
      | Some b \<Rightarrow> Inr b)"

text \<open>
  The two decision handlers end with the same statement,
  \<^verbatim>\<open>if payload.note: booking.notes = f"{booking.notes}\nDecision: {payload.note}" if booking.notes else payload.note\<close>.
  \<open>decision_notes old note\<close> is the value of \<^verbatim>\<open>booking.notes\<close> after it; a string
  is true when it is neither \<^verbatim>\<open>None\<close> nor empty.
\<close>

definition truthy :: "string option \<Rightarrow> bool" where
  "truthy x = (case x of None \<Rightarrow> False | Some t \<Rightarrow> t \<noteq> [])"

definition decision_notes :: "string option \<Rightarrow> string option \<Rightarrow> string option" where
  "decision_notes old note =
     (if truthy note then
        (if truthy old
         then Some (the old @ [CHR 0x0A] @ ''Decision: '' @ the note)
         else note)
      else old)"

definition save_booking :: "booking \<Rightarrow> session \<Rightarrow> session" where
  "save_booking b s =
     commit (s\<lparr>work := (work s)\<lparr>bookings :=
                 map (\<lambda>x. if bid x = bid b then b else x) (bookings (work s))\<rparr>\<rparr>)"

definition approve_booking ::
  "int \<Rightarrow> BookingDecision \<Rightarrow> int \<Rightarrow> session \<Rightarrow> (error + booking) \<times> session" where
  "approve_booking booking_id payload now s =
     (case get_booking s booking_id of
        Inl e \<Rightarrow> (Inl e, s)
      | Inr b \<Rightarrow>
          if status b \<noteq> pending then (Inl ConflictError, s)
          else
            (case ensure_no_conflict s (resource_id b) (start_at b) (end_at b) (Some (bid b)) of
               Inl e \<Rightarrow> (Inl e, s)
             | Inr _ \<Rightarrow>
                 (let b' = b\<lparr>status := approved,
                              approved_by := Some (bd_actor payload),
                              approved_at := Some now,
                              b_notes := decision_notes (b_notes b) (bd_note payload)\<rparr>
                  in (Inr b', save_booking b' s))))"

definition decline_booking ::
  "int \<Rightarrow> BookingDecision \<Rightarrow> int \<Rightarrow> session \<Rightarrow> (error + booking) \<times> session" where
  "decline_booking booking_id payload now s =
     (case get_booking s booking_id of
        Inl e \<Rightarrow> (Inl e, s)
      | Inr b \<Rightarrow>
          if status b \<noteq> pending then (Inl ConflictError, s)
          else
            (let b' = b\<lparr>status := declined,
                         approved_by := Some (bd_actor payload),
                         approved_at := Some now,
                         b_notes := decision_notes (b_notes b) (bd_note payload)\<rparr>
             in (Inr b', save_booking b' s)))"

text \<open>The states of the database that requests to the three mutating endpoints can
  reach from the empty one, whatever the requests and whether they succeed or fail.\<close>

inductive reachable :: "db \<Rightarrow> bool" where
  reachable_empty: "reachable empty_db"
| reachable_create: "reachable d \<Longrightarrow> reachable (snd (get_db (create_booking payload) d))"
| reachable_approve:
    "reachable d \<Longrightarrow> reachable (snd (get_db (approve_booking booking_id dec now) d))"
| reachable_decline:
    "reachable d \<Longrightarrow> reachable (snd (get_db (decline_booking booking_id dec now) d))"

text \<open>The rows that the query of \<open>ensure_no_conflict\<close> selects.\<close>

definition conflicts_with :: "string \<Rightarrow> date \<Rightarrow> date \<Rightarrow> int option \<Rightarrow> booking \<Rightarrow> bool" where
  "conflicts_with rid start end exclude_booking_id b =
     (resource_id b = rid \<and> status b = approved \<and> end_at b \<ge> start \<and> start_at b \<le> end
        \<and> (case exclude_booking_id of None \<Rightarrow> True | Some x \<Rightarrow> bid b \<noteq> x))"

section \<open>The calendar (routers/bookings.py)\<close>

definition CAPACITY_PER_DAY :: int where "CAPACITY_PER_DAY = 1"

text \<open>
  \<^verbatim>\<open>_daterange\<close> is a generator: it yields \<open>current\<close> while \<open>current <= end\<close>, and
  \<^verbatim>\<open>current += timedelta(days=1)\<close> raises OverflowError when the sum leaves the range
  of dates. The model returns the days yielded and how the generator ends: normally
  (\<open>None\<close>) or by raising after the last day yielded.
\<close>

function daterange :: "date \<Rightarrow> date \<Rightarrow> date list \<times> error option" where
  "daterange current end =
     (if current \<le> end then
        (if 0 < current + 1 \<and> current + 1 \<le> MAXORDINAL
         then (case daterange (current + 1) end of (ds, r) \<Rightarrow> (current # ds, r))
         else ([current], Some OverflowError))
      else ([], None))"
  by pat_completeness auto
termination
  by (relation "measure (\<lambda>(current, end). nat (end + 1 - current))") auto

declare daterange.simps [simp del]

text \<open>\<^verbatim>\<open>bookings_by_day.setdefault(day_value, []).append(booking)\<close> and
  \<^verbatim>\<open>bookings_by_day.get(day_value, [])\<close>.\<close>

definition setdefault_append ::
  "(date \<rightharpoonup> booking list) \<Rightarrow> date \<Rightarrow> booking \<Rightarrow> (date \<rightharpoonup> booking list)" where
  "setdefault_append m k b = m(k \<mapsto> (case m k of None \<Rightarrow> [] | Some bs \<Rightarrow> bs) @ [b])"

definition get_or_empty :: "(date \<rightharpoonup> booking list) \<Rightarrow> date \<Rightarrow> booking list" where
  "get_or_empty m k = (case m k of None \<Rightarrow> [] | Some bs \<Rightarrow> bs)"

text \<open>The first loop of \<^verbatim>\<open>_build_calendar\<close>: every booking is put on each day of its
  span, clipped to the grid.\<close>

fun bucket ::
  "date \<Rightarrow> date \<Rightarrow> booking list \<Rightarrow> (date \<rightharpoonup> booking list) \<Rightarrow> error + (date \<rightharpoonup> booking list)" where
  "bucket grid_start grid_end [] m = Inr m"
| "bucket grid_start grid_end (b # bs) m =
     (let span_start = max (start_at b) grid_start;
          span_end = min (end_at b) grid_end
      in case daterange span_start span_end of
           (days, r) \<Rightarrow>
             (let m' = foldl (\<lambda>acc day_value. setdefault_append acc day_value b) m days
              in case r of
                   Some e \<Rightarrow> Inl e
                 | None \<Rightarrow> bucket grid_start grid_end bs m'))"

definition approved_count :: "booking list \<Rightarrow> int" where
  "approved_count bs = int (length (filter (\<lambda>b. status b = approved) bs))"

definition pending_count :: "booking list \<Rightarrow> int" where
  "pending_count bs = int (length (filter (\<lambda>b. status b = pending) bs))"

text \<open>\<^verbatim>\<open>sorted(bookings, key=lambda b: (b.start_at, b.id))\<close>; both sorts are stable.\<close>

definition sorted_bookings :: "booking list \<Rightarrow> booking list" where
  "sorted_bookings bs = sort_key (\<lambda>b. (start_at b, bid b)) bs"

text \<open>
  The response records keep the date in place of its text (\<^verbatim>\<open>iso\<close>, the labels made
  by \<^verbatim>\<open>strftime\<close>), and the booking in place of its summary. The month label, the
  update label, the weekday labels and the resource summary are left out.
\<close>

record CalendarDayDetail =
  detail_iso :: date
  summary :: string
  confirmedCount :: int
  detail_pendingCount :: int
  detail_remainingSlots :: int
  detail_bookings :: "booking list"

record CalendarDay =
  iso :: date
  dayLabel :: int
  isCurrentMonth :: bool
  isToday :: bool
  isFull :: bool
  isUnavailable :: bool
  pendingCount :: int
  remainingSlots :: int
  day_bookings :: "booking list"

record CalendarMonth =
  selectedIso :: date
  totalBookings :: int
  month_pendingCount :: int
  month_remainingSlots :: int
  nextAvailableLabel :: "date option"
  weeks :: "CalendarDay list list"

record CalendarResponse =
  calendar :: CalendarMonth
  selectedDay :: CalendarDayDetail
  pendingRequests :: "booking list"

definition build_day_detail :: "date \<Rightarrow> booking list \<Rightarrow> CalendarDayDetail" where
  "build_day_detail day_value bs =
     (let approved_cnt = approved_count bs;
          pending_cnt = pending_count bs;
          remaining_slots = max 0 (CAPACITY_PER_DAY - approved_cnt);
          text =
            (if approved_cnt \<ge> CAPACITY_PER_DAY
             then ''All slots are filled. Decline or reschedule requests to reopen capacity.''
             else if bs \<noteq> []
             then ''Review guest details, confirm approvals, or release slots as needed.''
             else ''Wide open day ready for a new booking.'')
      in \<lparr>detail_iso = day_value, summary = text, confirmedCount = approved_cnt,
          detail_pendingCount = pending_cnt, detail_remainingSlots = remaining_slots,
          detail_bookings = sorted_bookings bs\<rparr>)"

text \<open>The body of the loop over the days of a week.\<close>

definition calendar_day ::
  "pydate \<Rightarrow> pydate \<Rightarrow> (date \<rightharpoonup> booking list) \<Rightarrow> pydate \<Rightarrow> CalendarDay" where
  "calendar_day anchor today bookings_by_day day_value =
     (let bs = get_or_empty bookings_by_day (toordinal day_value);
          approved_cnt = approved_count bs;
          pending_cnt = pending_count bs;
          remaining_slots = max 0 (CAPACITY_PER_DAY - approved_cnt)
      in \<lparr>iso = toordinal day_value,
          dayLabel = day day_value,
          isCurrentMonth = (month day_value = month anchor),
          isToday = (day_value = today),
          isFull = (approved_cnt \<ge> CAPACITY_PER_DAY),
          isUnavailable = False,
          pendingCount = pending_cnt,
          remainingSlots = remaining_slots,
          day_bookings = sorted_bookings bs\<rparr>)"

text \<open>\<^verbatim>\<open>weeks_dates[0][0]\<close> and \<^verbatim>\<open>weeks_dates[-1][-1]\<close>.\<close>

definition first_first :: "'a list list \<Rightarrow> error + 'a" where
  "first_first ws =
     (case ws of
        [] \<Rightarrow> Inl IndexError
      | w # _ \<Rightarrow> (case w of [] \<Rightarrow> Inl IndexError | x # _ \<Rightarrow> Inr x))"

definition last_last :: "'a list list \<Rightarrow> error + 'a" where
  "last_last ws =
     (if ws = [] then Inl IndexError
      else if last ws = [] then Inl IndexError
      else Inr (last (last ws)))"

text \<open>The scan for the next available day: the loop leaves at the first day that is
  not full; when the generator ends by raising, the loop raises.\<close>

definition next_available ::
  "(date \<rightharpoonup> booking list) \<Rightarrow> date \<Rightarrow> date \<Rightarrow> error + date option" where
  "next_available bookings_by_day from_day grid_end =
     (case daterange from_day grid_end of
        (days, r) \<Rightarrow>
          (case find (\<lambda>day_value.
                        approved_count (get_or_empty bookings_by_day day_value) < CAPACITY_PER_DAY)
                  days of
             Some day_value \<Rightarrow> Inr (Some day_value)
           | None \<Rightarrow> (case r of Some e \<Rightarrow> Inl e | None \<Rightarrow> Inr None)))"

text \<open>
  \<^verbatim>\<open>_build_calendar\<close>. \<open>anchor\<close> is the first day of the month shown, \<open>today\<close> is
  \<^verbatim>\<open>date.today()\<close>. The resource identifier only feeds the resource summary.
\<close>

definition build_calendar ::
  "pydate \<Rightarrow> booking list \<Rightarrow> date option \<Rightarrow> pydate \<Rightarrow> error + CalendarResponse" where
  "build_calendar anchor bs selected_date today =
     (case monthdatescalendar (year anchor) (month anchor) of
        Inl e \<Rightarrow> Inl e
      | Inr weeks_dates \<Rightarrow>
     (case first_first weeks_dates of
        Inl e \<Rightarrow> Inl e
      | Inr gs \<Rightarrow>
     (case last_last weeks_dates of
        Inl e \<Rightarrow> Inl e
      | Inr ge \<Rightarrow>
     (let grid_start = toordinal gs; grid_end = toordinal ge
      in case bucket grid_start grid_end bs Map.empty of
        Inl e \<Rightarrow> Inl e
      | Inr bookings_by_day \<Rightarrow>
     (case monthrange (year anchor) (month anchor) of
        Inl e \<Rightarrow> Inl e
      | Inr (_, ndays) \<Rightarrow>
     (case date_new (year anchor) (month anchor) ndays of
        Inl e \<Rightarrow> Inl e
      | Inr me \<Rightarrow>
     (let month_start = toordinal anchor;
          month_end = toordinal me;
          total_bookings = int (length (remdups (map bid
            (filter (\<lambda>b. (status b = pending \<or> status b = approved)
                          \<and> start_at b \<le> month_end \<and> end_at b \<ge> month_start) bs))));
          total_pending = int (length (remdups (map bid
            (filter (\<lambda>b. status b = pending
                          \<and> start_at b \<le> month_end \<and> end_at b \<ge> month_start) bs))));
          selected0 = (case selected_date of
                         Some sd \<Rightarrow> sd
                       | None \<Rightarrow> if year anchor = year today \<and> month anchor = month today
                                 then toordinal today else toordinal anchor);
          weeks_payload = map (map (calendar_day anchor today bookings_by_day)) weeks_dates;
          total_remaining = sum_list (map remainingSlots
            (filter isCurrentMonth (concat weeks_payload)))
      in case next_available bookings_by_day (max (toordinal today) grid_start) grid_end of
        Inl e \<Rightarrow> Inl e
      | Inr next_available_label \<Rightarrow>
     (let selected = (if selected0 < grid_start \<or> selected0 > grid_end
                      then toordinal anchor else selected0);
          selected_detail = build_day_detail selected (get_or_empty bookings_by_day selected);
          pending_requests = sorted_bookings (filter (\<lambda>b. status b = pending) bs)
      in Inr \<lparr>calendar = \<lparr>selectedIso = selected,
                            totalBookings = total_bookings,
                            month_pendingCount = total_pending,
                            month_remainingSlots = total_remaining,
                            nextAvailableLabel = next_available_label,
                            weeks = weeks_payload\<rparr>,
              selectedDay = selected_detail,
              pendingRequests = pending_requests\<rparr>))))))))"

text \<open>The query of \<^verbatim>\<open>_fetch_bookings_for_range\<close>; the rows come in table order.\<close>

definition fetch_bookings_for_range :: "db \<Rightarrow> string \<Rightarrow> date \<Rightarrow> date \<Rightarrow> booking list" where
  "fetch_bookings_for_range d rid start end =
     filter (\<lambda>b. resource_id b = rid \<and> end_at b \<ge> start \<and> start_at b \<le> end) (bookings d)"

text \<open>
  \<^verbatim>\<open>_month_anchor\<close>. The query parameter is absent or empty (\<open>NoMonth\<close>), or
  \<^verbatim>\<open>map(int, month.split("-"))\<close> gives a list of integers (\<open>MonthInts\<close>), or a part
  of it is not an integer (\<open>BadMonth\<close>).
\<close>

datatype month_param = NoMonth | BadMonth | MonthInts "int list"

fun month_anchor :: "month_param \<Rightarrow> pydate \<Rightarrow> error + pydate" where
  "month_anchor NoMonth today = date_new (year today) (month today) 1"
| "month_anchor BadMonth today = Inl ValidationError"
| "month_anchor (MonthInts [y, month_number]) today =
     (case date_new y month_number 1 of
        Inl e \<Rightarrow> Inl ValidationError
      | Inr a \<Rightarrow> Inr a)"
| "month_anchor (MonthInts _) today = Inl ValidationError"

definition get_calendar ::
  "db \<Rightarrow> month_param \<Rightarrow> date option \<Rightarrow> string \<Rightarrow> pydate \<Rightarrow> error + CalendarResponse" where
  "get_calendar d month_q selected_date rid today =
     (case month_anchor month_q today of
        Inl e \<Rightarrow> Inl e
      | Inr anchor \<Rightarrow>
     (case monthdatescalendar (year anchor) (month anchor) of
        Inl e \<Rightarrow> Inl e
      | Inr ws \<Rightarrow>
     (case first_first ws of
        Inl e \<Rightarrow> Inl e
      | Inr gs \<Rightarrow>
     (case last_last ws of
        Inl e \<Rightarrow> Inl e
      | Inr ge \<Rightarrow>
          build_calendar anchor
            (fetch_bookings_for_range d rid (toordinal gs) (toordinal ge))
            selected_date today))))"

definition get_calendar_day :: "db \<Rightarrow> date \<Rightarrow> string \<Rightarrow> CalendarDayDetail" where
  "get_calendar_day d date_value rid =
     (let bs = fetch_bookings_for_range d rid date_value date_value;
          day_bs = filter (\<lambda>b. start_at b \<le> date_value \<and> date_value \<le> end_at b) bs
      in build_day_detail date_value day_bs)"

section \<open>The counts of the specification\<close>

text \<open>
  The specification counts, for a day, the bookings in a given status whose span from
  \<open>start_at\<close> to \<open>end_at\<close> contains the day: \<open>approvedCount\<close> for the approved
  bookings and \<open>pendingCount\<close> for the pending ones. \<open>spec_count\<close> follows those
  words; the theorems compare it with what the code computes.
\<close>

definition spec_count :: "BookingStatus \<Rightarrow> date \<Rightarrow> booking list \<Rightarrow> int" where
  "spec_count st d bs =
     int (length (filter (\<lambda>b. status b = st \<and> start_at b \<le> d \<and> d \<le> end_at b) bs))"

section \<open>The invariant of the store\<close>

text \<open>
  What every reachable database satisfies: the bookings have distinct keys, none
  beyond the sequence, each runs from a day to the same or a later day, and two
  approved bookings of one resource never overlap.
\<close>

definition store_inv :: "db \<Rightarrow> bool" where
  "store_inv d =
     (distinct (map bid (bookings d))
      \<and> (\<forall>b\<in>set (bookings d). bid b \<le> booking_seq d)
      \<and> (\<forall>b\<in>set (bookings d). start_at b \<le> end_at b)
      \<and> (\<forall>b1\<in>set (bookings d). \<forall>b2\<in>set (bookings d).
            status b1 = approved \<and> status b2 = approved
            \<and> resource_id b1 = resource_id b2 \<and> bid b1 \<noteq> bid b2
            \<longrightarrow> \<not> (end_at b1 \<ge> start_at b2 \<and> start_at b1 \<le> end_at b2)))"

section \<open>A scenario\<close>

text \<open>
  The scenario of the specification: Alice asks for 2025-06-10 to 2025-06-12 (the
  days 739412 to 739414), Bob for 2025-06-11 (739413), and the owner decides.
  \<open>ex_backwards\<close> asks for 2025-07-05 to 2025-07-01.
\<close>

definition ex_alice :: BookingCreate where
  "ex_alice = \<lparr>bc_customer = \<lparr>cc_email = ''Alice@example.org'', cc_full_name = ''Alice''\<rparr>,
     bc_start_at = 739412, bc_end_at = 739414, bc_requested_by = ''Alice'',
     bc_notes = None, bc_resource_id = ''alder-lake-house'', bc_amount = None\<rparr>"

definition ex_bob :: BookingCreate where
  "ex_bob = \<lparr>bc_customer = \<lparr>cc_email = ''bob@example.org'', cc_full_name = ''Bob''\<rparr>,
     bc_start_at = 739413, bc_end_at = 739413, bc_requested_by = ''Bob'',
     bc_notes = Some ''Late arrival'', bc_resource_id = ''alder-lake-house'',
     bc_amount = None\<rparr>"

definition ex_backwards :: BookingCreate where
  "ex_backwards = \<lparr>bc_customer = \<lparr>cc_email = ''bob@example.org'', cc_full_name = ''Robert''\<rparr>,
     bc_start_at = 739437, bc_end_at = 739433, bc_requested_by = ''Bob'',
     bc_notes = None, bc_resource_id = ''alder-lake-house'', bc_amount = None\<rparr>"

definition ex_decision :: BookingDecision where
  "ex_decision = \<lparr>bd_actor = ''Owner'', bd_note = Some ''Confirmed by phone''\<rparr>"

definition ex_alice_row :: "BookingStatus \<Rightarrow> booking" where
  "ex_alice_row st = \<lparr>bid = 1, customer_id = 1, resource_id = ''alder-lake-house'',
     status = st, start_at = 739412, end_at = 739414, requested_by = ''Alice'',
     approved_by = (if st = pending then None else Some ''Owner''), amount = None,
     b_notes = (if st = pending then None else Some ''Confirmed by phone''),
     approved_at = (if st = pending then None else Some 1000)\<rparr>"

definition ex_bob_row :: booking where
  "ex_bob_row = \<lparr>bid = 2, customer_id = 2, resource_id = ''alder-lake-house'',
     status = pending, start_at = 739413, end_at = 739413, requested_by = ''Bob'',
     approved_by = None, amount = None, b_notes = Some ''Late arrival'',
     approved_at = None\<rparr>"

definition ex_alice_customer :: customer where
  "ex_alice_customer = \<lparr>cid = 1, email = ''alice@example.org'', full_name = ''Alice''\<rparr>"

definition ex_bob_customer :: customer where
  "ex_bob_customer = \<lparr>cid = 2, email = ''bob@example.org'', full_name = ''Bob''\<rparr>"

text \<open>Alice's request alone, pending (\<open>ex_db1\<close>) and approved (\<open>ex_db2\<close>); both requests
  pending (\<open>ex_db3\<close>); Alice's approved and Bob's pending (\<open>ex_db4\<close>).\<close>

definition ex_db1 :: db where
  "ex_db1 = \<lparr>customers = [ex_alice_customer], bookings = [ex_alice_row pending],
     customer_seq = 1, booking_seq = 1\<rparr>"


definition ex_db3 :: db where
  "ex_db3 = \<lparr>customers = [ex_alice_customer, ex_bob_customer],
     bookings = [ex_alice_row pending, ex_bob_row], customer_seq = 2, booking_seq = 2\<rparr>"

definition ex_db4 :: db where
  "ex_db4 = \<lparr>customers = [ex_alice_customer, ex_bob_customer],
     bookings = [ex_alice_row approved, ex_bob_row], customer_seq = 2, booking_seq = 2\<rparr>"

text \<open>Further states and requests of the scenario: Bob asking again under another
  name, a database with a declined and a cancelled booking, and Bob's request
  declined.\<close>

definition ex_bob_renamed :: BookingCreate where
  "ex_bob_renamed = ex_bob\<lparr>bc_customer := \<lparr>cc_email = ''BOB@example.org'', cc_full_name = ''Robert''\<rparr>\<rparr>"

definition ex_db5 :: db where
  "ex_db5 = \<lparr>customers = [ex_alice_customer, ex_bob_customer],
     bookings = [ex_alice_row approved, ex_bob_row\<lparr>status := declined\<rparr>,
                 ex_bob_row\<lparr>bid := 3, status := cancelled\<rparr>],
     customer_seq = 2, booking_seq = 3\<rparr>"

definition ex_bob_declined :: booking where
  "ex_bob_declined = ex_bob_row\<lparr>status := declined, approved_by := Some ''Owner'',
     b_notes := Some (''Late arrival'' @ [CHR 0x0A] @ ''Decision: Confirmed by phone''),
     approved_at := Some 1000\<rparr>"

definition ex_db6 :: db where
  "ex_db6 = ex_db3\<lparr>bookings := [ex_alice_row pending, ex_bob_declined]\<rparr>"

text \<open>Requests that the handler of \<^verbatim>\<open>POST /bookings\<close> accepts and that end in an
  error all the same: Bob's request with an amount of 100000000.0, with a resource
  name of 65 letters, and under another name when he is a stored customer
  (\<open>ex_db7\<close> is the database after that one). \<open>ex_priced\<close> has the amount 12.995 and
  \<open>ex_padded\<close> a resource name of 64 letters and a space.\<close>

definition ex_overpriced :: BookingCreate where
  "ex_overpriced = ex_bob\<lparr>bc_amount := Some (Decimal 1000000000 (- 1))\<rparr>"

definition ex_infinite :: BookingCreate where
  "ex_infinite = ex_bob\<lparr>bc_amount := Some Infinity\<rparr>"

definition ex_priced :: BookingCreate where
  "ex_priced = ex_bob\<lparr>bc_amount := Some (Decimal 12995 (- 3))\<rparr>"

definition ex_long_resource :: BookingCreate where
  "ex_long_resource = ex_bob\<lparr>bc_resource_id := replicate 65 (CHR ''a'')\<rparr>"

definition ex_padded :: BookingCreate where
  "ex_padded = ex_bob\<lparr>bc_resource_id := replicate 64 (CHR ''a'') @ '' ''\<rparr>"

definition ex_db7 :: db where
  "ex_db7 = \<lparr>customers = [ex_alice_customer, ex_bob_customer\<lparr>full_name := ''Robert''\<rparr>],
     bookings = [ex_alice_row pending, ex_bob_row, ex_bob_row\<lparr>bid := 3\<rparr>],
     customer_seq = 2, booking_seq = 3\<rparr>"

text \<open>The month shown is June 2025, and today is 2025-06-09.\<close>

definition ex_anchor :: pydate where
  "ex_anchor = \<lparr>year = 2025, month = 6, day = 1\<rparr>"

definition ex_today :: pydate where
  "ex_today = \<lparr>year = 2025, month = 6, day = 9\<rparr>"

section \<open>Properties of the lifecycle operations\<close>

lemma first_row_None:
  "((case take 1 xs of [] \<Rightarrow> None | b # _ \<Rightarrow> Some b) \<noteq> None) = (xs \<noteq> [])"
  by (cases xs) auto

lemma ensure_no_conflict_filter:
  "ensure_no_conflict s rid st en excl =
     (if filter (conflicts_with rid st en excl) (bookings (work s)) = []
      then Inr () else Inl ConflictError)"
proof -
  have eq: "(case excl of
               None \<Rightarrow> (\<lambda>b. resource_id b = rid \<and> status b = approved
                              \<and> end_at b \<ge> st \<and> start_at b \<le> en)
             | Some x \<Rightarrow> (\<lambda>b. (resource_id b = rid \<and> status b = approved
                              \<and> end_at b \<ge> st \<and> start_at b \<le> en) \<and> bid b \<noteq> x))
      = conflicts_with rid st en excl"
    by (cases excl) (auto simp: conflicts_with_def fun_eq_iff)
  show ?thesis
    unfolding ensure_no_conflict_def Let_def eq first_row_None by simp
qed

lemma conflict_iff:
  "(ensure_no_conflict s rid st en excl = Inl ConflictError) =
   (\<exists>b\<in>set (bookings (work s)). conflicts_with rid st en excl b)"
  by (auto simp: ensure_no_conflict_filter filter_empty_conv)

lemma no_conflict_iff:
  "(ensure_no_conflict s rid st en excl = Inr ()) =
   (\<forall>b\<in>set (bookings (work s)). \<not> conflicts_with rid st en excl b)"
  by (auto simp: ensure_no_conflict_filter filter_empty_conv)

lemma conflict_error: "ensure_no_conflict s rid st en excl = Inl e \<Longrightarrow> e = ConflictError"
  by (auto simp: ensure_no_conflict_filter split: if_splits)

lemma upsert_keeps:
  "bookings (work (snd (upsert_customer p s))) = bookings (work s)"
  "booking_seq (work (snd (upsert_customer p s))) = booking_seq (work s)"
  "committed (snd (upsert_customer p s)) = committed s"
  by (auto simp: upsert_customer_def Let_def split: option.splits)

lemma insert_booking_Inr:
  assumes "insert_booking c p i = Inr b"
  shows "bid b = i" and "status b = pending"
    and "start_at b = bc_start_at p" and "end_at b = bc_end_at p"
    and "customer_id b = cid c" and "b_notes b = bc_notes p"
  using assms by (auto simp: insert_booking_def split: sum.splits)

lemma insert_booking_Inl: "insert_booking c p i = Inl e \<Longrightarrow> e = DataError"
  by (auto simp: insert_booking_def varchar_def numeric_10_2_def Let_def
           split: sum.splits if_splits option.splits decimal.splits)

lemma create_booking_unfold:
  "create_booking p s =
     (if bc_start_at p > bc_end_at p then (Inl ValidationError, s)
      else if (\<exists>b\<in>set (bookings (work s)).
                  conflicts_with (bc_resource_id p) (bc_start_at p) (bc_end_at p) None b)
      then (Inl ConflictError, snd (upsert_customer (bc_customer p) s))
      else
        (let s1 = snd (upsert_customer (bc_customer p) s); w = work s1
         in case insert_booking (fst (upsert_customer (bc_customer p) s)) p (booking_seq w + 1) of
              Inl e \<Rightarrow> (Inl e, s1)
            | Inr b \<Rightarrow>
                (booking_read (renames (bc_customer p) s) b,
                 commit (s1\<lparr>work := w\<lparr>bookings := bookings w @ [b],
                                         booking_seq := booking_seq w + 1\<rparr>\<rparr>))))"
proof -
  obtain c s1 where u: "upsert_customer (bc_customer p) s = (c, s1)"
    by (cases "upsert_customer (bc_customer p) s")
  have w: "bookings (work s1) = bookings (work s)"
    using upsert_keeps(1)[of "bc_customer p" s] u by simp
  have "ensure_no_conflict s1 (bc_resource_id p) (bc_start_at p) (bc_end_at p) None = Inl ConflictError
        \<or> ensure_no_conflict s1 (bc_resource_id p) (bc_start_at p) (bc_end_at p) None = Inr ()"
    by (simp add: ensure_no_conflict_filter)
  then show ?thesis
  proof
    assume c: "ensure_no_conflict s1 (bc_resource_id p) (bc_start_at p) (bc_end_at p) None = Inl ConflictError"
    then have "\<exists>b\<in>set (bookings (work s)).
                  conflicts_with (bc_resource_id p) (bc_start_at p) (bc_end_at p) None b"
      using w by (simp add: conflict_iff)
    then show ?thesis using c u by (simp add: create_booking_def)
  next
    assume c: "ensure_no_conflict s1 (bc_resource_id p) (bc_start_at p) (bc_end_at p) None = Inr ()"
    then have "\<not> (\<exists>b\<in>set (bookings (work s)).
                  conflicts_with (bc_resource_id p) (bc_start_at p) (bc_end_at p) None b)"
      using w by (simp add: no_conflict_iff)
    then show ?thesis using c u by (simp add: create_booking_def Let_def)
  qed
qed


lemma close_same [simp]: "close_session \<lparr>committed = d, work = d\<rparr> = d"
  by (simp add: close_session_def)

lemma close_commit [simp]: "close_session (commit s) = work s"
  by (simp add: close_session_def commit_def)

lemma close_upsert:
  "close_session (snd (upsert_customer p \<lparr>committed = d, work = d\<rparr>)) =
     d\<lparr>customer_seq := customer_seq (work (snd (upsert_customer p \<lparr>committed = d, work = d\<rparr>)))\<rparr>"
  by (simp add: close_session_def upsert_keeps)

lemma get_db_create:
  "get_db (create_booking p) d =
     (if bc_start_at p > bc_end_at p then (Inl ValidationError, d)
      else if (\<exists>b\<in>set (bookings d).
                  conflicts_with (bc_resource_id p) (bc_start_at p) (bc_end_at p) None b)
      then (Inl ConflictError,
            d\<lparr>customer_seq :=
                customer_seq (work (snd (upsert_customer (bc_customer p) \<lparr>committed = d, work = d\<rparr>)))\<rparr>)
      else
        (case insert_booking (fst (upsert_customer (bc_customer p) \<lparr>committed = d, work = d\<rparr>)) p
                (booking_seq d + 1) of
           Inl e \<Rightarrow>
             (Inl e,
              d\<lparr>customer_seq :=
                  customer_seq (work (snd (upsert_customer (bc_customer p) \<lparr>committed = d, work = d\<rparr>)))\<rparr>)
         | Inr b \<Rightarrow>
             (booking_read (renames (bc_customer p) \<lparr>committed = d, work = d\<rparr>) b,
              (work (snd (upsert_customer (bc_customer p) \<lparr>committed = d, work = d\<rparr>)))
                \<lparr>bookings := bookings d @ [b], booking_seq := booking_seq d + 1\<rparr>)))"
  by (simp add: get_db_def create_booking_unfold Let_def upsert_keeps close_upsert
           split: sum.splits)

lemma approve_booking_unfold:
  "approve_booking i dec now s =
     (case find (\<lambda>b. bid b = i) (bookings (work s)) of
        None \<Rightarrow> (Inl NotFoundError, s)
      | Some b \<Rightarrow>
          if status b \<noteq> pending then (Inl ConflictError, s)
          else if (\<exists>x\<in>set (bookings (work s)).
                     conflicts_with (resource_id b) (start_at b) (end_at b) (Some (bid b)) x)
          then (Inl ConflictError, s)
          else (let b' = b\<lparr>status := approved, approved_by := Some (bd_actor dec),
                           approved_at := Some now,
                           b_notes := decision_notes (b_notes b) (bd_note dec)\<rparr>
                in (Inr b', save_booking b' s)))"
  by (simp add: approve_booking_def get_booking_def ensure_no_conflict_filter filter_empty_conv
      split: option.splits)

lemma get_db_approve:
  "get_db (approve_booking i dec now) d =
     (case find (\<lambda>b. bid b = i) (bookings d) of
        None \<Rightarrow> (Inl NotFoundError, d)
      | Some b \<Rightarrow>
          if status b \<noteq> pending then (Inl ConflictError, d)
          else if (\<exists>x\<in>set (bookings d).
                     conflicts_with (resource_id b) (start_at b) (end_at b) (Some (bid b)) x)
          then (Inl ConflictError, d)
          else (let b' = b\<lparr>status := approved, approved_by := Some (bd_actor dec),
                           approved_at := Some now,
                           b_notes := decision_notes (b_notes b) (bd_note dec)\<rparr>
                in (Inr b', d\<lparr>bookings := map (\<lambda>x. if bid x = bid b then b' else x) (bookings d)\<rparr>)))"
  by (simp add: get_db_def approve_booking_unfold save_booking_def Let_def split: option.splits)

lemma get_db_decline:
  "get_db (decline_booking i dec now) d =
     (case find (\<lambda>b. bid b = i) (bookings d) of
        None \<Rightarrow> (Inl NotFoundError, d)
      | Some b \<Rightarrow>
          if status b \<noteq> pending then (Inl ConflictError, d)
          else (let b' = b\<lparr>status := declined, approved_by := Some (bd_actor dec),
                           approved_at := Some now,
                           b_notes := decision_notes (b_notes b) (bd_note dec)\<rparr>
                in (Inr b', d\<lparr>bookings := map (\<lambda>x. if bid x = bid b then b' else x) (bookings d)\<rparr>)))"
  by (simp add: get_db_def decline_booking_def get_booking_def save_booking_def Let_def
      split: option.splits)


lemma inv_empty: "store_inv empty_db"
  by (simp add: store_inv_def empty_db_def)

lemma inv_cong:
  "bookings d' = bookings d \<Longrightarrow> booking_seq d' = booking_seq d \<Longrightarrow> store_inv d' = store_inv d"
  by (simp add: store_inv_def)

lemma inv_append:
  assumes "store_inv d" and "bid nb = booking_seq d + 1" and "status nb = pending"
    and "start_at nb \<le> end_at nb"
    and "bookings d' = bookings d @ [nb]" and "booking_seq d' = booking_seq d + 1"
  shows "store_inv d'"
proof -
  have fresh: "\<forall>b\<in>set (bookings d). bid b \<noteq> bid nb"
    using assms(1,2) by (fastforce simp: store_inv_def)
  have c1: "distinct (map bid (bookings d'))"
    using assms(1,5) fresh by (auto simp: store_inv_def)
  have c2: "\<forall>b\<in>set (bookings d'). bid b \<le> booking_seq d'"
    using assms(1,2,5,6) by (fastforce simp: store_inv_def)
  have c3: "\<forall>b\<in>set (bookings d'). start_at b \<le> end_at b"
    using assms(1,4,5) by (auto simp: store_inv_def)
  have c4: "\<forall>b1\<in>set (bookings d'). \<forall>b2\<in>set (bookings d').
           status b1 = approved \<and> status b2 = approved \<and> resource_id b1 = resource_id b2
           \<and> bid b1 \<noteq> bid b2 \<longrightarrow> \<not> (end_at b1 \<ge> start_at b2 \<and> start_at b1 \<le> end_at b2)"
  proof (intro ballI impI)
    fix b1 b2
    assume m: "b1 \<in> set (bookings d')" "b2 \<in> set (bookings d')"
      and h: "status b1 = approved \<and> status b2 = approved \<and> resource_id b1 = resource_id b2
           \<and> bid b1 \<noteq> bid b2"
    have "b1 \<noteq> nb" "b2 \<noteq> nb" using h assms(3) by auto
    then have "b1 \<in> set (bookings d)" "b2 \<in> set (bookings d)"
      using m assms(5) by auto
    then show "\<not> (end_at b1 \<ge> start_at b2 \<and> start_at b1 \<le> end_at b2)"
      using assms(1) h unfolding store_inv_def by blast
  qed
  show ?thesis unfolding store_inv_def using c1 c2 c3 c4 by blast
qed

lemma inv_create: assumes "store_inv d" shows "store_inv (snd (get_db (create_booking p) d))"
proof -
  let ?c = "fst (upsert_customer (bc_customer p) \<lparr>committed = d, work = d\<rparr>)"
  let ?q = "customer_seq (work (snd (upsert_customer (bc_customer p) \<lparr>committed = d, work = d\<rparr>)))"
  consider (bad) "bc_start_at p > bc_end_at p"
    | (conflict) "\<not> bc_start_at p > bc_end_at p"
        "\<exists>b\<in>set (bookings d).
            conflicts_with (bc_resource_id p) (bc_start_at p) (bc_end_at p) None b"
    | (refused) e where "\<not> bc_start_at p > bc_end_at p"
        "\<not> (\<exists>b\<in>set (bookings d).
            conflicts_with (bc_resource_id p) (bc_start_at p) (bc_end_at p) None b)"
        "insert_booking ?c p (booking_seq d + 1) = Inl e"
    | (ok) nb where "\<not> bc_start_at p > bc_end_at p"
        "\<not> (\<exists>b\<in>set (bookings d).
            conflicts_with (bc_resource_id p) (bc_start_at p) (bc_end_at p) None b)"
        "insert_booking ?c p (booking_seq d + 1) = Inr nb"
    by (cases "insert_booking ?c p (booking_seq d + 1)") blast+
  then show ?thesis
  proof cases
    case bad
    then show ?thesis using assms by (simp add: get_db_create)
  next
    case conflict
    then have "snd (get_db (create_booking p) d) = d\<lparr>customer_seq := ?q\<rparr>"
      by (simp add: get_db_create)
    then show ?thesis using assms inv_cong[of "snd (get_db (create_booking p) d)" d] by simp
  next
    case refused
    then have "snd (get_db (create_booking p) d) = d\<lparr>customer_seq := ?q\<rparr>"
      by (simp add: get_db_create)
    then show ?thesis using assms inv_cong[of "snd (get_db (create_booking p) d)" d] by simp
  next
    case ok
    let ?d' = "snd (get_db (create_booking p) d)"
    have b: "bookings ?d' = bookings d @ [nb]" and q: "booking_seq ?d' = booking_seq d + 1"
      using ok by (simp_all add: get_db_create)
    show ?thesis
      by (rule inv_append[OF assms _ _ _ b q]) (use ok insert_booking_Inr[OF ok(3)] in simp_all)
  qed
qed

lemma find_bid:
  "find (\<lambda>x. bid x = i) bs = Some b \<Longrightarrow> b \<in> set bs \<and> bid b = i"
  by (induction bs) (auto split: if_splits)

lemma map_bid_update:
  "bid b' = k \<Longrightarrow> map bid (map (\<lambda>x. if bid x = k then b' else x) bs) = map bid bs"
  by (induction bs) auto

lemma inv_update:
  assumes "store_inv d" and "b \<in> set (bookings d)"
    and "bid b' = bid b" "start_at b' = start_at b" "end_at b' = end_at b"
    and "resource_id b' = resource_id b"
    and "status b' = approved \<longrightarrow>
           (\<forall>x\<in>set (bookings d). \<not> conflicts_with (resource_id b) (start_at b) (end_at b) (Some (bid b)) x)"
  shows "store_inv (d\<lparr>bookings := map (\<lambda>x. if bid x = bid b then b' else x) (bookings d)\<rparr>)"
proof -
  let ?f = "\<lambda>x. if bid x = bid b then b' else x"
  have ids: "map bid (map ?f (bookings d)) = map bid (bookings d)"
    using assms(3) by (intro map_bid_update) simp
  have mem: "\<And>y. y \<in> set (map ?f (bookings d)) \<Longrightarrow>
      (y = b') \<or> (y \<in> set (bookings d) \<and> bid y \<noteq> bid b)"
    by auto
  have d1: "distinct (map bid (map ?f (bookings d)))"
    unfolding ids using assms(1) unfolding store_inv_def by blast
  have d2: "\<forall>y\<in>set (map ?f (bookings d)). bid y \<le> booking_seq d"
    using assms(1,2,3) by (auto simp: store_inv_def)
  have d3: "\<forall>y\<in>set (map ?f (bookings d)). start_at y \<le> end_at y"
    using assms(1,2,4,5) by (auto simp: store_inv_def)
  have d4: "\<forall>y\<in>set (map ?f (bookings d)). \<forall>z\<in>set (map ?f (bookings d)).
           status y = approved \<and> status z = approved \<and> resource_id y = resource_id z
           \<and> bid y \<noteq> bid z \<longrightarrow> \<not> (end_at y \<ge> start_at z \<and> start_at y \<le> end_at z)"
  proof (intro ballI impI)
    fix y z
    assume y: "y \<in> set (map ?f (bookings d))" and z: "z \<in> set (map ?f (bookings d))"
      and h: "status y = approved \<and> status z = approved \<and> resource_id y = resource_id z
           \<and> bid y \<noteq> bid z"
    from mem[OF y] mem[OF z] h
    consider (old) "y \<in> set (bookings d)" "z \<in> set (bookings d)"
      | (left) "y = b'" "z \<in> set (bookings d)" "bid z \<noteq> bid b"
      | (right) "z = b'" "y \<in> set (bookings d)" "bid y \<noteq> bid b"
      by auto
    then show "\<not> (end_at y \<ge> start_at z \<and> start_at y \<le> end_at z)"
    proof cases
      case old
      then show ?thesis using assms(1) h unfolding store_inv_def by blast
    next
      case left
      then have "\<not> conflicts_with (resource_id b) (start_at b) (end_at b) (Some (bid b)) z"
        using assms(7) h by auto
      then show ?thesis using left h assms(4,5,6) by (auto simp: conflicts_with_def)
    next
      case right
      then have "\<not> conflicts_with (resource_id b) (start_at b) (end_at b) (Some (bid b)) y"
        using assms(7) h by auto
      then show ?thesis using right h assms(4,5,6) by (auto simp: conflicts_with_def)
    qed
  qed
  show ?thesis
    unfolding store_inv_def using d1 d2 d3 d4 by simp
qed

lemma inv_approve: assumes "store_inv d" shows "store_inv (snd (get_db (approve_booking i dec now) d))"
proof (cases "find (\<lambda>b. bid b = i) (bookings d)")
  case None
  then show ?thesis using assms by (simp add: get_db_approve)
next
  case (Some b)
  then have mem: "b \<in> set (bookings d)" using find_bid by blast
  let ?c = "\<exists>x\<in>set (bookings d).
               conflicts_with (resource_id b) (start_at b) (end_at b) (Some (bid b)) x"
  show ?thesis
  proof (cases "status b \<noteq> pending \<or> ?c")
    case True
    then have "snd (get_db (approve_booking i dec now) d) = d"
      using Some by (auto simp: get_db_approve)
    then show ?thesis using assms by simp
  next
    case False
    let ?b' = "b\<lparr>status := approved, approved_by := Some (bd_actor dec),
                 approved_at := Some now,
                 b_notes := decision_notes (b_notes b) (bd_note dec)\<rparr>"
    have eq: "snd (get_db (approve_booking i dec now) d) =
        d\<lparr>bookings := map (\<lambda>x. if bid x = bid b then ?b' else x) (bookings d)\<rparr>"
      using Some False by (simp add: get_db_approve Let_def)
    show ?thesis unfolding eq
      by (rule inv_update[OF assms mem]) (use False in simp_all)
  qed
qed

lemma inv_decline: assumes "store_inv d" shows "store_inv (snd (get_db (decline_booking i dec now) d))"
proof (cases "find (\<lambda>b. bid b = i) (bookings d)")
  case None
  then show ?thesis using assms by (simp add: get_db_decline)
next
  case (Some b)
  then have mem: "b \<in> set (bookings d)" using find_bid by blast
  show ?thesis
  proof (cases "status b \<noteq> pending")
    case True
    then have "snd (get_db (decline_booking i dec now) d) = d"
      using Some by (simp add: get_db_decline)
    then show ?thesis using assms by simp
  next
    case False
    let ?b' = "b\<lparr>status := declined, approved_by := Some (bd_actor dec),
                 approved_at := Some now,
                 b_notes := decision_notes (b_notes b) (bd_note dec)\<rparr>"
    have eq: "snd (get_db (decline_booking i dec now) d) =
        d\<lparr>bookings := map (\<lambda>x. if bid x = bid b then ?b' else x) (bookings d)\<rparr>"
      using Some False by (simp add: get_db_decline Let_def)
    show ?thesis unfolding eq
      by (rule inv_update[OF assms mem]) simp_all
  qed
qed

lemma reachable_inv: "reachable d \<Longrightarrow> store_inv d"
  by (induction rule: reachable.induct)
     (simp_all add: inv_empty inv_create inv_approve inv_decline)

lemma filter_le_one:
  "distinct (map f xs) \<Longrightarrow> (\<And>x y. x \<in> set xs \<Longrightarrow> y \<in> set xs \<Longrightarrow> P x \<Longrightarrow> P y \<Longrightarrow> f x = f y)
    \<Longrightarrow> length (filter P xs) \<le> 1"
proof (induction xs)
  case Nil
  then show ?case by simp
next
  case (Cons a xs)
  show ?case
  proof (cases "P a")
    case True
    have "filter P xs = []"
    proof (rule ccontr)
      assume "filter P xs \<noteq> []"
      then obtain y where y: "y \<in> set xs" "P y"
        by (auto simp: filter_empty_conv)
      then have "f a = f y" using Cons.prems(2)[of a y] True by simp
      then show False using Cons.prems(1) y by auto
    qed
    then show ?thesis using True by simp
  next
    case False
    then show ?thesis using Cons by auto
  qed
qed

lemma find_distinct:
  "distinct (map f xs) \<Longrightarrow> b \<in> set xs \<Longrightarrow> find (\<lambda>x. f x = f b) xs = Some b"
proof (induction xs)
  case Nil
  then show ?case by simp
next
  case (Cons a xs)
  show ?case
  proof (cases "a = b")
    case True
    then show ?thesis by simp
  next
    case False
    then have m: "b \<in> set xs" using Cons.prems by simp
    then have "f b \<in> f ` set xs" by (rule imageI)
    then have "f a \<noteq> f b" using Cons.prems(1) by auto
    then show ?thesis using Cons m by simp
  qed
qed

lemma find_update:
  "find (\<lambda>x. bid x = i) xs = Some b \<Longrightarrow> bid b' = i \<Longrightarrow>
     find (\<lambda>x. bid x = i) (map (\<lambda>x. if bid x = i then b' else x) xs) = Some b'"
  by (induction xs) (auto split: if_splits)

subsection \<open>The scenario, step by step\<close>

lemma ex_step1: "get_db (create_booking ex_alice) empty_db = (Inr (ex_alice_row pending), ex_db1)"
  by code_simp


lemma ex_step3: "get_db (create_booking ex_bob) ex_db1 = (Inr ex_bob_row, ex_db3)"
  by code_simp

lemma ex_step4:
  "get_db (approve_booking 1 ex_decision 1000) ex_db3 = (Inr (ex_alice_row approved), ex_db4)"
  by code_simp

text \<open>The requests that are accepted and end in an error: the database refuses the
  amount or the resource name and nothing is stored; the response cannot be built
  for the renamed customer, and the booking is stored.\<close>

lemma ex_refused_amount:
  "get_db (create_booking ex_overpriced) ex_db1 = (Inl DataError, ex_db1\<lparr>customer_seq := 2\<rparr>)"
  by code_simp

lemma ex_refused_infinite:
  "get_db (create_booking ex_infinite) ex_db1 = (Inl DataError, ex_db1\<lparr>customer_seq := 2\<rparr>)"
  by code_simp

lemma ex_refused_resource:
  "get_db (create_booking ex_long_resource) ex_db1 = (Inl DataError, ex_db1\<lparr>customer_seq := 2\<rparr>)"
  by code_simp

lemma ex_rounded_amount:
  "fst (get_db (create_booking ex_priced) ex_db1) = Inr (ex_bob_row\<lparr>amount := Some 1300\<rparr>)"
  by code_simp

lemma ex_truncated_resource:
  "fst (get_db (create_booking ex_padded) ex_db1)
     = Inr (ex_bob_row\<lparr>resource_id := replicate 64 (CHR ''a'')\<rparr>)"
  by code_simp

lemma ex_renamed_customer:
  "get_db (create_booking ex_bob_renamed) ex_db3 = (Inl MissingGreenlet, ex_db7)"
  by code_simp

lemma ex_db1_reachable: "reachable ex_db1"
  using reachable_create[OF reachable_empty, of ex_alice] by (simp add: ex_step1)


lemma ex_db3_reachable: "reachable ex_db3"
  using reachable_create[OF ex_db1_reachable, of ex_bob] by (simp add: ex_step3)

lemma ex_db4_reachable: "reachable ex_db4"
  using reachable_approve[OF ex_db3_reachable, of 1 ex_decision 1000] by (simp add: ex_step4)

section \<open>The claims about the booking lifecycle\<close>

text \<open>
  C1. In every state reachable from the empty store by create, approve and decline
  requests, for every resource \<open>R\<close> and day \<open>D\<close> at most one approved booking of \<open>R\<close>
  has \<open>start_at \<le> D \<le> end_at\<close>.
\<close>

theorem C1_capacity:
  assumes "reachable d"
  shows "length (filter (\<lambda>b. resource_id b = R \<and> status b = approved
                              \<and> start_at b \<le> D \<and> D \<le> end_at b) (bookings d)) \<le> 1"
proof -
  have i: "store_inv d" using assms by (rule reachable_inv)
  show ?thesis
  proof (rule filter_le_one[where f = bid])
    show "distinct (map bid (bookings d))" using i by (simp add: store_inv_def)
  next
    fix x y
    assume "x \<in> set (bookings d)" "y \<in> set (bookings d)"
      "resource_id x = R \<and> status x = approved \<and> start_at x \<le> D \<and> D \<le> end_at x"
      "resource_id y = R \<and> status y = approved \<and> start_at y \<le> D \<and> D \<le> end_at y"
    then have "x \<in> set (bookings d)" "y \<in> set (bookings d)"
      "status x = approved \<and> status y = approved \<and> resource_id x = resource_id y"
      "end_at x \<ge> start_at y \<and> start_at x \<le> end_at y"
      by auto
    then show "bid x = bid y"
      using i unfolding store_inv_def by blast
  qed
qed

theorem C1_capacity_witness:
  "reachable ex_db4 \<and>
   length (filter (\<lambda>b. resource_id b = ''alder-lake-house'' \<and> status b = approved
                        \<and> start_at b \<le> 739413 \<and> 739413 \<le> end_at b) (bookings ex_db4)) \<le> 1"
  by (intro conjI) (rule ex_db4_reachable, rule C1_capacity[OF ex_db4_reachable])


lemma ex_step6: "get_db (approve_booking 2 ex_decision 1000) ex_db4 = (Inl ConflictError, ex_db4)"
  by code_simp

lemma ex_step7: "get_db (decline_booking 1 ex_decision 1000) ex_db4 = (Inl ConflictError, ex_db4)"
  by code_simp




text \<open>
  C3. The conflict check reports a conflict exactly when the store holds an approved
  booking of the resource with \<open>end_at \<ge> start\<close> and \<open>start_at \<le> end\<close>, other than the
  excluded booking when one is given; otherwise it returns normally, and bookings
  that are pending, declined or cancelled never cause a conflict.
\<close>

theorem C3_conflict_check:
  "((ensure_no_conflict s rid st en excl = Inl ConflictError) =
      (\<exists>b\<in>set (bookings (work s)).
          resource_id b = rid \<and> status b = approved \<and> end_at b \<ge> st \<and> start_at b \<le> en
          \<and> (case excl of None \<Rightarrow> True | Some x \<Rightarrow> bid b \<noteq> x)))
   \<and> (ensure_no_conflict s rid st en excl = Inl ConflictError
        \<or> ensure_no_conflict s rid st en excl = Inr ())
   \<and> ((\<forall>b\<in>set (bookings (work s)).
          status b = pending \<or> status b = declined \<or> status b = cancelled)
        \<longrightarrow> ensure_no_conflict s rid st en excl = Inr ())"
proof (intro conjI impI)
  show "(ensure_no_conflict s rid st en excl = Inl ConflictError) =
      (\<exists>b\<in>set (bookings (work s)).
          resource_id b = rid \<and> status b = approved \<and> end_at b \<ge> st \<and> start_at b \<le> en
          \<and> (case excl of None \<Rightarrow> True | Some x \<Rightarrow> bid b \<noteq> x))"
    by (simp add: conflict_iff conflicts_with_def)
  show "ensure_no_conflict s rid st en excl = Inl ConflictError
        \<or> ensure_no_conflict s rid st en excl = Inr ()"
    by (simp add: ensure_no_conflict_filter)
  assume "\<forall>b\<in>set (bookings (work s)).
          status b = pending \<or> status b = declined \<or> status b = cancelled"
  then have "\<forall>b\<in>set (bookings (work s)). \<not> conflicts_with rid st en excl b"
    by (auto simp: conflicts_with_def)
  then show "ensure_no_conflict s rid st en excl = Inr ()"
    by (simp add: no_conflict_iff)
qed

theorem C3_conflict_check_witness:
  "ensure_no_conflict \<lparr>committed = ex_db4, work = ex_db4\<rparr> ''alder-lake-house'' 739413 739413 None
     = Inl ConflictError
   \<and> ensure_no_conflict \<lparr>committed = ex_db4, work = ex_db4\<rparr> ''alder-lake-house'' 739412 739414 (Some 1)
     = Inr ()
   \<and> ensure_no_conflict \<lparr>committed = ex_db4, work = ex_db4\<rparr> ''alder-lake-house'' 739415 739420 None
     = Inr ()
   \<and> ensure_no_conflict \<lparr>committed = ex_db3, work = ex_db3\<rparr> ''alder-lake-house'' 739413 739413 None
     = Inr ()"
proof -
  let ?s4 = "\<lparr>committed = ex_db4, work = ex_db4\<rparr>" and ?s3 = "\<lparr>committed = ex_db3, work = ex_db3\<rparr>"
  have b4: "bookings (work ?s4) = [ex_alice_row approved, ex_bob_row]"
    and b3: "bookings (work ?s3) = [ex_alice_row pending, ex_bob_row]"
    by (simp_all add: ex_db4_def ex_db3_def)
  have rows: "resource_id (ex_alice_row approved) = ''alder-lake-house''"
    "status (ex_alice_row approved) = approved" "status (ex_alice_row pending) = pending"
    "start_at (ex_alice_row approved) = 739412" "end_at (ex_alice_row approved) = 739414"
    "bid (ex_alice_row approved) = 1" "status ex_bob_row = pending"
    by (simp_all add: ex_alice_row_def ex_bob_row_def)
  have 1: "ensure_no_conflict ?s4 ''alder-lake-house'' 739413 739413 None = Inl ConflictError"
    using C3_conflict_check[of ?s4 "''alder-lake-house''" 739413 739413 None]
    unfolding b4 by (auto simp: rows)
  have 2: "ensure_no_conflict ?s4 ''alder-lake-house'' 739412 739414 (Some 1) = Inr ()"
    using C3_conflict_check[of ?s4 "''alder-lake-house''" 739412 739414 "Some 1"]
    unfolding b4 by (auto simp: rows)
  have 3: "ensure_no_conflict ?s4 ''alder-lake-house'' 739415 739420 None = Inr ()"
    using C3_conflict_check[of ?s4 "''alder-lake-house''" 739415 739420 None]
    unfolding b4 by (auto simp: rows)
  have 4: "ensure_no_conflict ?s3 ''alder-lake-house'' 739413 739413 None = Inr ()"
    using C3_conflict_check[of ?s3 "''alder-lake-house''" 739413 739413 None]
    unfolding b3 by (auto simp: rows)
  show ?thesis using 1 2 3 4 by blast
qed

text \<open>
  C4. When create, approve or decline fails with ConflictError, the bookings and the
  customers stored are those of before the call. For create this holds although the
  handler has upserted the customer in its session before the conflict check: the
  session is closed without a commit, and the database differs from the one before
  the call at most in the customer sequence, which no row refers to. After a failed
  approve or decline the database is the one before the call.
\<close>

theorem C4_conflict_leaves_store:
  "(fst (get_db (create_booking p) d) = Inl ConflictError
      \<longrightarrow> bookings (snd (get_db (create_booking p) d)) = bookings d
          \<and> customers (snd (get_db (create_booking p) d)) = customers d
          \<and> snd (get_db (create_booking p) d)
              = d\<lparr>customer_seq := customer_seq (snd (get_db (create_booking p) d))\<rparr>
          \<and> snd (create_booking p \<lparr>committed = d, work = d\<rparr>)
              = snd (upsert_customer (bc_customer p) \<lparr>committed = d, work = d\<rparr>))
   \<and> (fst (get_db (approve_booking i dec now) d) = Inl ConflictError
      \<longrightarrow> snd (get_db (approve_booking i dec now) d) = d)
   \<and> (fst (get_db (decline_booking i dec now) d) = Inl ConflictError
      \<longrightarrow> snd (get_db (decline_booking i dec now) d) = d)"
proof (intro conjI impI)
  assume f: "fst (get_db (create_booking p) d) = Inl ConflictError"
  then have c: "\<not> bc_start_at p > bc_end_at p \<and> (\<exists>b\<in>set (bookings d).
      conflicts_with (bc_resource_id p) (bc_start_at p) (bc_end_at p) None b)"
    by (auto simp: get_db_create booking_read_def dest: insert_booking_Inl
             split: if_splits sum.splits)
  show "bookings (snd (get_db (create_booking p) d)) = bookings d"
    using c by (simp add: get_db_create)
  show "customers (snd (get_db (create_booking p) d)) = customers d"
    using c by (simp add: get_db_create)
  show "snd (get_db (create_booking p) d)
          = d\<lparr>customer_seq := customer_seq (snd (get_db (create_booking p) d))\<rparr>"
    using c by (simp add: get_db_create)
  show "snd (create_booking p \<lparr>committed = d, work = d\<rparr>)
          = snd (upsert_customer (bc_customer p) \<lparr>committed = d, work = d\<rparr>)"
    using c by (simp add: create_booking_unfold)
next
  assume "fst (get_db (approve_booking i dec now) d) = Inl ConflictError"
  then show "snd (get_db (approve_booking i dec now) d) = d"
    by (auto simp: get_db_approve Let_def split: option.splits if_splits)
next
  assume "fst (get_db (decline_booking i dec now) d) = Inl ConflictError"
  then show "snd (get_db (decline_booking i dec now) d) = d"
    by (auto simp: get_db_decline Let_def split: option.splits if_splits)
qed

lemma ex_step8: "fst (get_db (create_booking ex_bob_renamed) ex_db4) = Inl ConflictError"
  by code_simp

lemma ex_step8_session:
  "customers (work (snd (upsert_customer (bc_customer ex_bob_renamed)
       \<lparr>committed = ex_db4, work = ex_db4\<rparr>)))
     = [ex_alice_customer, ex_bob_customer\<lparr>full_name := ''Robert''\<rparr>]"
  by code_simp

theorem C4_conflict_leaves_store_witness:
  "fst (get_db (create_booking ex_bob_renamed) ex_db4) = Inl ConflictError
   \<and> customers (work (snd (create_booking ex_bob_renamed \<lparr>committed = ex_db4, work = ex_db4\<rparr>)))
       = [ex_alice_customer, ex_bob_customer\<lparr>full_name := ''Robert''\<rparr>]
   \<and> customers (snd (get_db (create_booking ex_bob_renamed) ex_db4))
       = [ex_alice_customer, ex_bob_customer]
   \<and> bookings (snd (get_db (create_booking ex_bob_renamed) ex_db4))
       = [ex_alice_row approved, ex_bob_row]
   \<and> fst (get_db (approve_booking 2 ex_decision 1000) ex_db4) = Inl ConflictError
   \<and> snd (get_db (approve_booking 2 ex_decision 1000) ex_db4) = ex_db4
   \<and> fst (get_db (decline_booking 1 ex_decision 1000) ex_db4) = Inl ConflictError
   \<and> snd (get_db (decline_booking 1 ex_decision 1000) ex_db4) = ex_db4"
proof -
  have a: "fst (get_db (approve_booking 2 ex_decision 1000) ex_db4) = Inl ConflictError"
    and c: "fst (get_db (decline_booking 1 ex_decision 1000) ex_db4) = Inl ConflictError"
    by (simp_all add: ex_step6 ex_step7)
  have rows: "customers ex_db4 = [ex_alice_customer, ex_bob_customer]"
    "bookings ex_db4 = [ex_alice_row approved, ex_bob_row]"
    by (simp_all add: ex_db4_def)
  show ?thesis
    using C4_conflict_leaves_store[of ex_bob_renamed ex_db4 2 ex_decision 1000]
      C4_conflict_leaves_store[of ex_bob_renamed ex_db4 1 ex_decision 1000]
      ex_step8 ex_step8_session a c rows
    by simp
qed

text \<open>
  C5. For a stored booking that is not pending (approved, declined or cancelled),
  approve and decline both fail with ConflictError and leave the database as it was.
  The keys of the bookings are distinct, \<open>bid\<close> being the primary key.
\<close>

theorem C5_decision_needs_pending:
  assumes "distinct (map bid (bookings d))" and "b \<in> set (bookings d)"
    and "status b \<noteq> pending"
  shows "get_db (approve_booking (bid b) dec now) d = (Inl ConflictError, d)
       \<and> get_db (decline_booking (bid b) dec now) d = (Inl ConflictError, d)"
proof -
  have f: "find (\<lambda>x. bid x = bid b) (bookings d) = Some b"
    using assms(1,2) by (rule find_distinct)
  show ?thesis using f assms(3) by (simp add: get_db_approve get_db_decline)
qed

theorem C5_decision_needs_pending_witness:
  "get_db (approve_booking 1 ex_decision 1000) ex_db5 = (Inl ConflictError, ex_db5)
   \<and> get_db (decline_booking 1 ex_decision 1000) ex_db5 = (Inl ConflictError, ex_db5)
   \<and> get_db (approve_booking 2 ex_decision 1000) ex_db5 = (Inl ConflictError, ex_db5)
   \<and> get_db (decline_booking 2 ex_decision 1000) ex_db5 = (Inl ConflictError, ex_db5)
   \<and> get_db (approve_booking 3 ex_decision 1000) ex_db5 = (Inl ConflictError, ex_db5)
   \<and> get_db (decline_booking 3 ex_decision 1000) ex_db5 = (Inl ConflictError, ex_db5)"
proof -
  have d: "distinct (map bid (bookings ex_db5))"
    by (simp add: ex_db5_def ex_alice_row_def ex_bob_row_def)
  have m: "ex_alice_row approved \<in> set (bookings ex_db5)"
    "ex_bob_row\<lparr>status := declined\<rparr> \<in> set (bookings ex_db5)"
    "ex_bob_row\<lparr>bid := 3, status := cancelled\<rparr> \<in> set (bookings ex_db5)"
    by (simp_all add: ex_db5_def)
  have s: "status (ex_alice_row approved) \<noteq> pending"
    "status (ex_bob_row\<lparr>status := declined\<rparr>) \<noteq> pending"
    "status (ex_bob_row\<lparr>bid := 3, status := cancelled\<rparr>) \<noteq> pending"
    by (simp_all add: ex_alice_row_def)
  have i: "bid (ex_alice_row approved) = 1" "bid (ex_bob_row\<lparr>status := declined\<rparr>) = 2"
    "bid (ex_bob_row\<lparr>bid := 3, status := cancelled\<rparr>) = 3"
    by (simp_all add: ex_alice_row_def ex_bob_row_def)
  show ?thesis
    using C5_decision_needs_pending[OF d m(1) s(1), of ex_decision 1000]
      C5_decision_needs_pending[OF d m(2) s(2), of ex_decision 1000]
      C5_decision_needs_pending[OF d m(3) s(3), of ex_decision 1000]
    unfolding i by blast
qed

text \<open>
  C6. A create request with \<open>start > end\<close> fails with ValidationError and leaves the
  database as it was: no booking is stored and no customer is upserted. Every booking
  of a reachable database has \<open>start_at \<le> end_at\<close>.
\<close>

theorem C6_start_after_end_rejected:
  "(bc_start_at p > bc_end_at p \<longrightarrow> get_db (create_booking p) d = (Inl ValidationError, d))
   \<and> (reachable d' \<longrightarrow> (\<forall>b\<in>set (bookings d'). start_at b \<le> end_at b))"
proof (intro conjI impI)
  assume "bc_start_at p > bc_end_at p"
  then show "get_db (create_booking p) d = (Inl ValidationError, d)"
    by (simp add: get_db_create)
next
  assume "reachable d'"
  then have "store_inv d'" by (rule reachable_inv)
  then show "\<forall>b\<in>set (bookings d'). start_at b \<le> end_at b"
    unfolding store_inv_def by blast
qed

theorem C6_start_after_end_rejected_witness:
  "bc_start_at ex_backwards > bc_end_at ex_backwards
   \<and> get_db (create_booking ex_backwards) ex_db4 = (Inl ValidationError, ex_db4)
   \<and> reachable ex_db4
   \<and> list_all (\<lambda>b. start_at b \<le> end_at b) (bookings ex_db4)"
proof -
  have g: "bc_start_at ex_backwards > bc_end_at ex_backwards"
    by (simp add: ex_backwards_def)
  show ?thesis
    using C6_start_after_end_rejected[of ex_backwards ex_db4 ex_db4] g ex_db4_reachable
    by (simp add: list_all_iff)
qed


lemma ex_step9:
  "get_db (decline_booking 2 ex_decision 1000) ex_db3 = (Inr ex_bob_declined, ex_db6)"
  by code_simp


section \<open>The calendar of dates\<close>

lemma month_cases:
  "1 \<le> m \<Longrightarrow> m \<le> 12 \<Longrightarrow>
   m = 1 \<or> m = 2 \<or> m = 3 \<or> m = 4 \<or> m = 5 \<or> m = 6 \<or> m = 7 \<or> m = 8 \<or> m = 9 \<or> m = 10
   \<or> m = 11 \<or> m = (12::int)"
  by arith

lemma isleap_is_leap: "isleap y = is_leap y"
  by (simp add: isleap_def is_leap_def)

lemma monthlen_days_in_month:
  "1 \<le> m \<Longrightarrow> m \<le> 12 \<Longrightarrow> monthlen y m = days_in_month y m"
  using month_cases[of m]
  by (auto simp: monthlen_def days_in_month_def mdays_def DAYS_IN_MONTH_def isleap_is_leap)

lemma days_in_month_bounds:
  "1 \<le> m \<Longrightarrow> m \<le> 12 \<Longrightarrow> 28 \<le> days_in_month y m \<and> days_in_month y m \<le> 31"
  using month_cases[of m]
  by (auto simp: days_in_month_def DAYS_IN_MONTH_def)

lemma days_before_month_next:
  "1 \<le> m \<Longrightarrow> m < 12 \<Longrightarrow>
   days_before_month y (m + 1) = days_before_month y m + days_in_month y m"
  using month_cases[of m]
  by (auto simp: days_before_month_def days_in_month_def DAYS_BEFORE_MONTH_def DAYS_IN_MONTH_def)

lemma days_before_month_bounds:
  "1 \<le> m \<Longrightarrow> m \<le> 12 \<Longrightarrow> 0 \<le> days_before_month y m \<and> days_before_month y m \<le> 335"
  using month_cases[of m]
  by (auto simp: days_before_month_def DAYS_BEFORE_MONTH_def)

lemma div_step:
  fixes y n :: int
  assumes "0 < n"
  shows "y div n = (y - 1) div n + (if y mod n = 0 then 1 else 0)"
proof (cases "y mod n = 0")
  case True
  then have "n dvd y" by (simp add: mod_eq_0_iff_dvd)
  then have "n * (y div n) = y" by simp
  then have "y - 1 = n * (y div n - 1) + (n - 1)"
    by (simp add: algebra_simps)
  then have "(y - 1) div n = y div n - 1"
    using assms by (intro int_div_pos_eq[where r = "n - 1"]) simp_all
  then show ?thesis using True by simp
next
  case False
  have "0 \<le> y mod n" "y mod n < n"
    using assms by simp_all
  then have r: "0 \<le> y mod n - 1" "y mod n - 1 < n"
    using False by linarith+
  have "y - 1 = n * (y div n) + (y mod n - 1)"
    by (simp add: algebra_simps)
  then have "(y - 1) div n = y div n"
    using r by (intro int_div_pos_eq[where r = "y mod n - 1"]) simp_all
  then show ?thesis using False by simp
qed

lemma mod_100_4: "(y::int) mod 100 = 0 \<Longrightarrow> y mod 4 = 0"
proof -
  assume "y mod 100 = 0"
  then have "100 dvd y" by (simp add: mod_eq_0_iff_dvd)
  moreover have "(4::int) dvd 100" by simp
  ultimately have "4 dvd y" using dvd_trans by blast
  then show ?thesis by (simp add: mod_eq_0_iff_dvd)
qed

lemma mod_400_100: "(y::int) mod 400 = 0 \<Longrightarrow> y mod 100 = 0"
proof -
  assume "y mod 400 = 0"
  then have "400 dvd y" by (simp add: mod_eq_0_iff_dvd)
  moreover have "(100::int) dvd 400" by simp
  ultimately have "100 dvd y" using dvd_trans by blast
  then show ?thesis by (simp add: mod_eq_0_iff_dvd)
qed

lemma days_before_year_next:
  "days_before_year (y + 1) = days_before_year y + (if is_leap y then 366 else 365)"
proof -
  have d4: "y div 4 = (y - 1) div 4 + (if y mod 4 = 0 then 1 else 0)"
    and d100: "y div 100 = (y - 1) div 100 + (if y mod 100 = 0 then 1 else 0)"
    and d400: "y div 400 = (y - 1) div 400 + (if y mod 400 = 0 then 1 else 0)"
    by (rule div_step, simp)+
  have e: "days_before_year (y + 1) = y * 365 + y div 4 - y div 100 + y div 400"
    by (simp add: days_before_year_def)
  have f: "days_before_year y = y * 365 - 365 + (y - 1) div 4 - (y - 1) div 100 + (y - 1) div 400"
    by (simp add: days_before_year_def algebra_simps)
  consider (a) "y mod 4 \<noteq> 0" | (b) "y mod 4 = 0" "y mod 100 \<noteq> 0"
    | (c) "y mod 100 = 0" "y mod 400 \<noteq> 0" | (d) "y mod 400 = 0"
    by (cases "y mod 4 = 0"; cases "y mod 100 = 0"; cases "y mod 400 = 0") simp_all
  then show ?thesis
  proof cases
    case a
    then have "y mod 100 \<noteq> 0" "y mod 400 \<noteq> 0"
      using mod_100_4[of y] mod_400_100[of y] by auto
    then show ?thesis unfolding e f d4 d100 d400 using a by (simp add: is_leap_def)
  next
    case b
    then have "y mod 400 \<noteq> 0" using mod_400_100[of y] by auto
    then show ?thesis unfolding e f d4 d100 d400 using b by (simp add: is_leap_def)
  next
    case c
    then have "y mod 4 = 0" using mod_100_4[of y] by auto
    then show ?thesis unfolding e f d4 d100 d400 using c by (simp add: is_leap_def)
  next
    case d
    then have "y mod 100 = 0" "y mod 4 = 0"
      using mod_100_4[of y] mod_400_100[of y] by auto
    then show ?thesis unfolding e f d4 d100 d400 using d by (simp add: is_leap_def)
  qed
qed

lemma days_before_year_mono: "y \<le> y' \<Longrightarrow> days_before_year y \<le> days_before_year y'"
proof (induction y' rule: int_ge_induct)
  case base
  show ?case by simp
next
  case (step i)
  then show ?case using days_before_year_next[of i] by (simp split: if_splits)
qed

lemma days_before_year_nonneg: "1 \<le> y \<Longrightarrow> 0 \<le> days_before_year y"
  using days_before_year_mono[of 1 y] by (simp add: days_before_year_def)

lemma days_before_year_upper: "y \<le> 9999 \<Longrightarrow> days_before_year y \<le> 3651694"
  using days_before_year_mono[of y 9999] by (simp add: days_before_year_def)

lemma days_before_december:
  "days_before_month y 12 + 31 = (if is_leap y then 366 else 365)"
  by (simp add: days_before_month_def DAYS_BEFORE_MONTH_def)

lemma days_before_january: "days_before_month y 1 = 0"
  by (simp add: days_before_month_def DAYS_BEFORE_MONTH_def)

lemma ymd2ord_next_month:
  assumes "1 \<le> m" "m \<le> 12"
  shows "ymd2ord (fst (nextmonth y m)) (snd (nextmonth y m)) 1
           = ymd2ord y m (days_in_month y m) + 1"
proof (cases "m = 12")
  case True
  have "days_in_month y 12 = 31" by (simp add: days_in_month_def DAYS_IN_MONTH_def)
  then show ?thesis
    using True days_before_december[of y] days_before_year_next[of y]
    by (simp add: nextmonth_def ymd2ord_def days_before_january)
next
  case False
  then show ?thesis
    using assms days_before_month_next[of m y]
    by (simp add: nextmonth_def ymd2ord_def)
qed

lemma next_prev_month:
  "1 \<le> m \<Longrightarrow> m \<le> 12 \<Longrightarrow>
   nextmonth (fst (prevmonth y m)) (snd (prevmonth y m)) = (y, m)"
  by (auto simp: nextmonth_def prevmonth_def)

lemma prevmonth_range:
  "1 \<le> m \<Longrightarrow> m \<le> 12 \<Longrightarrow> 1 \<le> snd (prevmonth y m) \<and> snd (prevmonth y m) \<le> 12"
  by (auto simp: prevmonth_def)

lemma nextmonth_range:
  "1 \<le> m \<Longrightarrow> m \<le> 12 \<Longrightarrow> 1 \<le> snd (nextmonth y m) \<and> snd (nextmonth y m) \<le> 12"
  by (auto simp: nextmonth_def)

lemma ymd2ord_prev_month:
  assumes "1 \<le> m" "m \<le> 12"
  shows "ymd2ord (fst (prevmonth y m)) (snd (prevmonth y m))
            (days_in_month (fst (prevmonth y m)) (snd (prevmonth y m))) + 1
          = ymd2ord y m 1"
  using ymd2ord_next_month[of "snd (prevmonth y m)" "fst (prevmonth y m)"]
    prevmonth_range[OF assms, of y] next_prev_month[OF assms, of y]
  by simp

lemma ymd2ord_day: "ymd2ord y m d = ymd2ord y m 1 + (d - 1)"
  by (simp add: ymd2ord_def)

lemma ymd2ord_pos:
  "1 \<le> y \<Longrightarrow> 1 \<le> m \<Longrightarrow> m \<le> 12 \<Longrightarrow> 1 \<le> d \<Longrightarrow> 1 \<le> ymd2ord y m d"
  using days_before_year_nonneg[of y] days_before_month_bounds[of m y]
  by (simp add: ymd2ord_def)

lemma ymd2ord_upper:
  assumes "y \<le> 9999" "1 \<le> m" "m \<le> 12" "(y, m) \<noteq> (9999, 12)" "d \<le> days_in_month y m"
  shows "ymd2ord y m d \<le> 3652028"
proof (cases "y = 9999")
  case True
  then have m: "m \<le> 11" using assms by simp
  have nl: "\<not> is_leap 9999" by (simp add: is_leap_def)
  have "days_before_month 9999 m + days_in_month 9999 m \<le> 334"
    using month_cases[OF assms(2,3)] m nl
    by (auto simp: days_before_month_def days_in_month_def DAYS_BEFORE_MONTH_def DAYS_IN_MONTH_def)
  moreover have "days_before_year 9999 = 3651694" by (simp add: days_before_year_def)
  ultimately show ?thesis using assms(5) True by (simp add: ymd2ord_def)
next
  case False
  then have "y + 1 \<le> 9999" using assms(1) by simp
  then have "days_before_year (y + 1) \<le> 3651694" by (rule days_before_year_upper)
  moreover have "days_before_month y m + days_in_month y m \<le> (if is_leap y then 366 else 365)"
    using month_cases[OF assms(2,3)]
    by (auto simp: days_before_month_def days_in_month_def DAYS_BEFORE_MONTH_def DAYS_IN_MONTH_def)
  ultimately show ?thesis
    using assms(5) days_before_year_next[of y] by (simp add: ymd2ord_def split: if_splits)
qed

lemma dates_of_append:
  "dates_of (xs @ ys) =
     (case dates_of xs of
        Inl e \<Rightarrow> Inl e
      | Inr ps \<Rightarrow> (case dates_of ys of Inl e \<Rightarrow> Inl e | Inr qs \<Rightarrow> Inr (ps @ qs)))"
  by (induction xs rule: dates_of.induct) (auto split: sum.splits)

lemma date_new_valid:
  "1 \<le> y \<Longrightarrow> y \<le> 9999 \<Longrightarrow> 1 \<le> m \<Longrightarrow> m \<le> 12 \<Longrightarrow> 1 \<le> d \<Longrightarrow> d \<le> days_in_month y m
   \<Longrightarrow> date_new y m d = Inr \<lparr>year = y, month = m, day = d\<rparr>"
  by (simp add: date_new_def MINYEAR_def MAXYEAR_def)

lemma dates_of_month:
  assumes "a \<le> b \<longrightarrow> 1 \<le> y \<and> y \<le> 9999 \<and> 1 \<le> a \<and> b \<le> days_in_month y m"
    and "1 \<le> m" "m \<le> 12"
  shows "dates_of (map (\<lambda>d. (y, m, d)) [a..b])
           = Inr (map (\<lambda>d. \<lparr>year = y, month = m, day = d\<rparr>) [a..b])"
  using assms
proof (induction a b rule: upto.induct)
  case (1 i j)
  show ?case
  proof (cases "i \<le> j")
    case True
    then have v: "date_new y m i = Inr \<lparr>year = y, month = m, day = i\<rparr>"
      using 1 by (intro date_new_valid) auto
    have ih: "dates_of (map (\<lambda>d. (y, m, d)) [i + 1..j])
           = Inr (map (\<lambda>d. \<lparr>year = y, month = m, day = d\<rparr>) [i + 1..j])"
      using 1 True by auto
    have u: "[i..j] = i # [i + 1..j]" using True by (simp add: upto_rec1)
    show ?thesis unfolding u by (simp add: v ih)
  next
    case False
    then show ?thesis by simp
  qed
qed

lemma map_ymd2ord_upto:
  "map (\<lambda>d. toordinal \<lparr>year = y, month = m, day = d\<rparr>) [a..b]
     = [ymd2ord y m 1 - 1 + a .. ymd2ord y m 1 - 1 + b]"
proof (induction a b rule: upto.induct)
  case (1 i j)
  show ?case
  proof (cases "i \<le> j")
    case True
    have u: "[i..j] = i # [i + 1..j]" using True by (simp add: upto_rec1)
    have u': "[ymd2ord y m 1 - 1 + i .. ymd2ord y m 1 - 1 + j]
        = (ymd2ord y m 1 - 1 + i) # [ymd2ord y m 1 - 1 + (i + 1) .. ymd2ord y m 1 - 1 + j]"
      using True by (simp add: upto_rec1 add.assoc)
    show ?thesis unfolding u u' using 1[OF True] ymd2ord_day[of y m i]
      by (simp add: toordinal_def)
  next
    case False
    then show ?thesis by simp
  qed
qed

lemma chunks7_Nil [simp]: "chunks7 [] = []"
  by (subst chunks7.simps) simp

lemma chunks7_Cons: "xs \<noteq> [] \<Longrightarrow> chunks7 xs = take 7 xs # chunks7 (drop 7 xs)"
  by (subst chunks7.simps) simp

lemma chunks7_concat: "concat (chunks7 xs) = xs"
proof (induction xs rule: chunks7.induct)
  case (1 xs)
  show ?case
  proof (cases "xs = []")
    case True
    then show ?thesis by simp
  next
    case False
    then show ?thesis using 1 by (simp add: chunks7_Cons)
  qed
qed

lemma chunks7_nonempty_rows: "w \<in> set (chunks7 xs) \<Longrightarrow> w \<noteq> []"
proof (induction xs arbitrary: w rule: chunks7.induct)
  case (1 xs)
  show ?case
  proof (cases "xs = []")
    case True
    then show ?thesis using 1 by simp
  next
    case False
    then have "chunks7 xs = take 7 xs # chunks7 (drop 7 xs)" by (rule chunks7_Cons)
    then have "w = take 7 xs \<or> w \<in> set (chunks7 (drop 7 xs))" using 1(2) by auto
    then show ?thesis using 1(1)[OF False] False by auto
  qed
qed

lemma chunks7_rows_7:
  "7 dvd length xs \<Longrightarrow> w \<in> set (chunks7 xs) \<Longrightarrow> length w = 7"
proof (induction xs arbitrary: w rule: chunks7.induct)
  case (1 xs)
  show ?case
  proof (cases "xs = []")
    case True
    then show ?thesis using 1 by simp
  next
    case False
    then have c: "chunks7 xs = take 7 xs # chunks7 (drop 7 xs)" by (rule chunks7_Cons)
    from 1(2) obtain k where k: "length xs = 7 * k" by (auto elim: dvdE)
    have "k \<noteq> 0"
    proof
      assume "k = 0"
      then have "length xs = 0" using k by simp
      then show False using False by simp
    qed
    then have len: "7 \<le> length xs" using k by simp
    have "length (drop 7 xs) = 7 * (k - 1)" using k by (simp add: diff_mult_distrib2)
    then have d: "7 dvd length (drop 7 xs)" by simp
    from c 1(3) have "w = take 7 xs \<or> w \<in> set (chunks7 (drop 7 xs))" by auto
    then show ?thesis
    proof
      assume "w = take 7 xs"
      then show ?thesis using len by simp
    next
      assume "w \<in> set (chunks7 (drop 7 xs))"
      then show ?thesis using 1(1)[OF False d] by simp
    qed
  qed
qed

lemma chunks7_ne: "xs \<noteq> [] \<Longrightarrow> chunks7 xs \<noteq> []"
  by (simp add: chunks7_Cons)

lemma first_first_chunks7:
  assumes "xs \<noteq> []" shows "first_first (chunks7 xs) = Inr (hd xs)"
proof -
  obtain a list where x: "xs = a # list" using assms by (cases xs) auto
  have "take 7 xs = a # take 6 list" unfolding x by simp
  then have c: "chunks7 xs = (a # take 6 list) # chunks7 (drop 7 xs)"
    using chunks7_Cons[OF assms] by simp
  show ?thesis unfolding c first_first_def by (simp add: x)
qed

lemma last_concat: "xss \<noteq> [] \<Longrightarrow> last xss \<noteq> [] \<Longrightarrow> last (concat xss) = last (last xss)"
  by (induction xss) (auto simp: last_append)

lemma last_last_chunks7:
  assumes "xs \<noteq> []" shows "last_last (chunks7 xs) = Inr (last xs)"
proof -
  have ne: "chunks7 xs \<noteq> []" using assms by (rule chunks7_ne)
  then have "last (chunks7 xs) \<in> set (chunks7 xs)" by (rule last_in_set)
  then have l: "last (chunks7 xs) \<noteq> []" by (rule chunks7_nonempty_rows)
  have "last (concat (chunks7 xs)) = last (last (chunks7 xs))"
    using ne l by (rule last_concat)
  then have "last (last (chunks7 xs)) = last xs" by (simp only: chunks7_concat)
  then show ?thesis unfolding last_last_def using ne l by simp
qed

lemma weekday_of_range: "0 \<le> weekday_of n \<and> weekday_of n \<le> 6"
  by (simp add: weekday_of_def) 

lemma monthrange_valid:
  assumes "1 \<le> y" "y \<le> 9999" "1 \<le> m" "m \<le> 12"
  shows "monthrange y m = Inr (weekday_of (ymd2ord y m 1), days_in_month y m)"
proof -
  have d: "date_new y m 1 = Inr \<lparr>year = y, month = m, day = 1\<rparr>"
    using assms days_in_month_bounds[of m y] by (intro date_new_valid) auto
  show ?thesis
    using assms
    by (simp add: monthrange_def weekday_def MINYEAR_def MAXYEAR_def d toordinal_def
        monthlen_days_in_month)
qed

lemma first_of_year_one: "weekday_of (ymd2ord 1 1 1) = 0"
  by (simp add: weekday_of_def ymd2ord_def days_before_year_def days_before_month_def
      DAYS_BEFORE_MONTH_def)

text \<open>The three parts of the grid, as dates and as ordinals.\<close>

lemma grid_dates:
  assumes "1 \<le> y" "y \<le> 9999" "1 \<le> m" "m \<le> 12" "(y, m) \<noteq> (9999, 12)"
  defines "first \<equiv> ymd2ord y m 1"
    and "nd \<equiv> days_in_month y m"
  defines "day1 \<equiv> weekday_of first"
  defines "da \<equiv> (- day1 - nd) mod 7"
  shows "\<exists>ps qs rs. itermonthdates y m = Inr (ps @ qs @ rs)
          \<and> map toordinal ps = [first - day1 .. first - 1]
          \<and> qs = map (\<lambda>d. \<lparr>year = y, month = m, day = d\<rparr>) [1 .. nd]
          \<and> map toordinal qs = [first .. first + nd - 1]
          \<and> map toordinal rs = [first + nd .. first + nd + da - 1]"
proof -
  obtain py pm where p: "prevmonth y m = (py, pm)" by (cases "prevmonth y m")
  obtain ny nm where n: "nextmonth y m = (ny, nm)" by (cases "nextmonth y m")
  have pmr: "1 \<le> pm" "pm \<le> 12" using prevmonth_range[OF assms(3,4), of y] p by auto
  have nmr: "1 \<le> nm" "nm \<le> 12" using nextmonth_range[OF assms(3,4), of y] n by auto
  have d1: "0 \<le> day1" "day1 \<le> 6" using weekday_of_range[of first] by (simp_all add: day1_def)
  have dar: "0 \<le> da" "da \<le> 6" by (simp_all add: da_def)
  have ndr: "28 \<le> nd" "nd \<le> 31" using days_in_month_bounds[OF assms(3,4), of y] by (simp_all add: nd_def)
  define pe where "pe = monthlen py pm + 1"
  have pe: "pe = days_in_month py pm + 1" using pmr by (simp add: pe_def monthlen_days_in_month)
  have per: "29 \<le> pe" using days_in_month_bounds[OF pmr, of py] pe by simp
  have mr: "monthrange y m = Inr (day1, nd)"
    using monthrange_valid[OF assms(1-4)] by (simp add: day1_def first_def nd_def)
  have it3: "itermonthdays3 y m =
      Inr (map (\<lambda>d. (py, pm, d)) [pe - day1 .. pe - 1]
         @ map (\<lambda>d. (y, m, d)) [1 .. nd]
         @ map (\<lambda>d. (ny, nm, d)) [1 .. da])"
    using d1 by (simp add: itermonthdays3_def mr p n firstweekday_def Let_def pe_def da_def)
  \<comment> \<open>the days before the month\<close>
  have pyr: "pe - day1 \<le> pe - 1 \<longrightarrow> 1 \<le> py \<and> py \<le> 9999 \<and> 1 \<le> pe - day1 \<and> pe - 1 \<le> days_in_month py pm"
  proof
    assume "pe - day1 \<le> pe - 1"
    then have nz: "day1 \<noteq> 0" by simp
    have "(y, m) \<noteq> (1, 1)"
    proof
      assume "(y, m) = (1, 1)"
      then have "day1 = 0" using first_of_year_one by (simp add: day1_def first_def)
      then show False using nz by simp
    qed
    then have "1 \<le> py" using p assms(1,3) by (auto simp: prevmonth_def split: if_splits)
    moreover have "py \<le> 9999" using p assms(2) by (auto simp: prevmonth_def split: if_splits)
    ultimately show "1 \<le> py \<and> py \<le> 9999 \<and> 1 \<le> pe - day1 \<and> pe - 1 \<le> days_in_month py pm"
      using per d1 pe by simp
  qed
  define ps where "ps = map (\<lambda>d. \<lparr>year = py, month = pm, day = d\<rparr>) [pe - day1 .. pe - 1]"
  have dp: "dates_of (map (\<lambda>d. (py, pm, d)) [pe - day1 .. pe - 1]) = Inr ps"
    unfolding ps_def using pyr pmr by (intro dates_of_month) auto
  have prev_first: "ymd2ord py pm 1 - 1 + pe = first"
    using ymd2ord_prev_month[OF assms(3,4), of y] p ymd2ord_day[of py pm "days_in_month py pm"] pe
    by (simp add: first_def)
  have op: "map toordinal ps = [first - day1 .. first - 1]"
  proof -
    have "map toordinal ps = [ymd2ord py pm 1 - 1 + (pe - day1) .. ymd2ord py pm 1 - 1 + (pe - 1)]"
      unfolding ps_def using map_ymd2ord_upto[of py pm "pe - day1" "pe - 1"] by (simp add: comp_def)
    moreover have "ymd2ord py pm 1 - 1 + (pe - day1) = first - day1"
      "ymd2ord py pm 1 - 1 + (pe - 1) = first - 1"
      using prev_first by linarith+
    ultimately show ?thesis by simp
  qed
  \<comment> \<open>the days of the month\<close>
  define qs where "qs = map (\<lambda>d. \<lparr>year = y, month = m, day = d\<rparr>) [1 .. nd]"
  have dq: "dates_of (map (\<lambda>d. (y, m, d)) [1 .. nd]) = Inr qs"
    unfolding qs_def using assms(1-4) by (intro dates_of_month) (auto simp: nd_def)
  have oq: "map toordinal qs = [first .. first + nd - 1]"
  proof -
    have "map toordinal qs = [ymd2ord y m 1 - 1 + 1 .. ymd2ord y m 1 - 1 + nd]"
      unfolding qs_def using map_ymd2ord_upto[of y m 1 nd] by (simp add: comp_def)
    moreover have "ymd2ord y m 1 - 1 + 1 = first" "ymd2ord y m 1 - 1 + nd = first + nd - 1"
      by (simp_all add: first_def)
    ultimately show ?thesis by simp
  qed
  \<comment> \<open>the days after the month\<close>
  have nyr: "1 \<le> da \<longrightarrow> 1 \<le> ny \<and> ny \<le> 9999 \<and> (1::int) \<le> 1 \<and> da \<le> days_in_month ny nm"
    using n assms(1,2,4,5) dar days_in_month_bounds[OF nmr, of ny]
    by (auto simp: nextmonth_def split: if_splits)
  define rs where "rs = map (\<lambda>d. \<lparr>year = ny, month = nm, day = d\<rparr>) [1 .. da]"
  have dr: "dates_of (map (\<lambda>d. (ny, nm, d)) [1 .. da]) = Inr rs"
    unfolding rs_def using nyr nmr by (intro dates_of_month) auto
  have next_first: "ymd2ord ny nm 1 = first + nd"
    using ymd2ord_next_month[OF assms(3,4), of y] n ymd2ord_day[of y m nd]
    by (simp add: first_def nd_def)
  have or: "map toordinal rs = [first + nd .. first + nd + da - 1]"
  proof -
    have "map toordinal rs = [ymd2ord ny nm 1 - 1 + 1 .. ymd2ord ny nm 1 - 1 + da]"
      unfolding rs_def using map_ymd2ord_upto[of ny nm 1 da] by (simp add: comp_def)
    moreover have "ymd2ord ny nm 1 - 1 + 1 = first + nd"
      "ymd2ord ny nm 1 - 1 + da = first + nd + da - 1"
      using next_first by linarith+
    ultimately show ?thesis by simp
  qed
  have "itermonthdates y m = Inr (ps @ qs @ rs)"
    by (simp add: itermonthdates_def it3 dates_of_append dp dq dr)
  then show ?thesis using op oq or qs_def by blast
qed

lemma upto_append: "a \<le> b + 1 \<Longrightarrow> b \<le> c \<Longrightarrow> [a..b] @ [b + 1..c] = [a..(c::int)]"
proof (cases "a \<le> b")
  case True
  assume "b \<le> c"
  then show ?thesis using True upto_split2[of a b c] by simp
next
  case False
  assume "a \<le> b + 1"
  then have "a = b + 1" using False by simp
  then show ?thesis by simp
qed

lemma pad_after: "((a::int) + b + (- a - b) mod 7) mod 7 = 0"
proof -
  have "(a + b + (- a - b) mod 7) mod 7 = (a + b + (- a - b)) mod 7"
    by (rule mod_add_right_eq)
  then show ?thesis by simp
qed

lemma monday_before: "((n::int) - (n + 6) mod 7 + 6) mod 7 = 0"
proof -
  have z: "(n + 6 - (n + 6) mod 7) mod 7 = 0" by (simp add: minus_mod_eq_mult_div)
  have e: "n - (n + 6) mod 7 + 6 = n + 6 - (n + 6) mod 7" by linarith
  show ?thesis unfolding e by (rule z)
qed

lemma grid:
  assumes "1 \<le> y" "y \<le> 9999" "1 \<le> m" "m \<le> 12" "(y, m) \<noteq> (9999, 12)"
  defines "first \<equiv> ymd2ord y m 1"
    and "nd \<equiv> days_in_month y m"
  defines "day1 \<equiv> weekday_of first"
  defines "da \<equiv> (- day1 - nd) mod 7"
  shows "\<exists>ds. monthdatescalendar y m = Inr (chunks7 ds)
          \<and> map toordinal ds = [first - day1 .. first + nd + da - 1]
          \<and> 7 dvd length ds
          \<and> set (map (\<lambda>d. \<lparr>year = y, month = m, day = d\<rparr>) [1 .. nd]) \<subseteq> set ds"
proof -
  obtain ps qs rs where g: "itermonthdates y m = Inr (ps @ qs @ rs)"
      "map toordinal ps = [first - day1 .. first - 1]"
      "qs = map (\<lambda>d. \<lparr>year = y, month = m, day = d\<rparr>) [1 .. nd]"
      "map toordinal qs = [first .. first + nd - 1]"
      "map toordinal rs = [first + nd .. first + nd + da - 1]"
    using grid_dates[OF assms(1-5)] unfolding first_def nd_def day1_def da_def by blast
  have d1: "0 \<le> day1" "day1 \<le> 6" using weekday_of_range[of first] by (simp_all add: day1_def)
  have dar: "0 \<le> da" "da \<le> 6" by (simp_all add: da_def)
  have ndr: "28 \<le> nd" using days_in_month_bounds[OF assms(3,4), of y] by (simp add: nd_def)
  have a1: "[first - day1 .. first - 1] @ [first .. first + nd - 1] = [first - day1 .. first + nd - 1]"
    using upto_append[of "first - day1" "first - 1" "first + nd - 1"] d1 ndr by simp
  have a2: "[first - day1 .. first + nd - 1] @ [first + nd .. first + nd + da - 1]
      = [first - day1 .. first + nd + da - 1]"
    using upto_append[of "first - day1" "first + nd - 1" "first + nd + da - 1"] d1 ndr dar by simp
  have "map toordinal (ps @ qs @ rs) = (map toordinal ps @ map toordinal qs) @ map toordinal rs"
    by simp
  then have ords: "map toordinal (ps @ qs @ rs) = [first - day1 .. first + nd + da - 1]"
    unfolding g(2,4,5) a1 a2 .
  have "length (ps @ qs @ rs) = length [first - day1 .. first + nd + da - 1]"
    using ords by (metis length_map)
  then have len: "int (length (ps @ qs @ rs)) = day1 + nd + da"
    using d1 ndr dar by simp
  have "(day1 + nd + da) mod 7 = 0" unfolding da_def by (rule pad_after)
  then have "7 dvd int (length (ps @ qs @ rs))" using len by (simp add: mod_eq_0_iff_dvd)
  then have dv: "7 dvd length (ps @ qs @ rs)" by presburger
  have "monthdatescalendar y m = Inr (chunks7 (ps @ qs @ rs))"
    by (simp add: monthdatescalendar_def g(1))
  moreover have "set (map (\<lambda>d. \<lparr>year = y, month = m, day = d\<rparr>) [1 .. nd]) \<subseteq> set (ps @ qs @ rs)"
    using g(3) by auto
  ultimately show ?thesis using ords dv by blast
qed

lemma calendar_fails_9999_12: "monthdatescalendar 9999 12 = Inl ValueError"
  by code_simp

lemma date_new_Inr:
  "date_new y m d = Inr p \<Longrightarrow>
     1 \<le> y \<and> y \<le> 9999 \<and> 1 \<le> m \<and> m \<le> 12 \<and> 1 \<le> d \<and> d \<le> days_in_month y m
     \<and> p = \<lparr>year = y, month = m, day = d\<rparr>"
  by (auto simp: date_new_def MINYEAR_def MAXYEAR_def split: if_splits)

lemma sunday_after: "((f::int) + nd + (- ((f + 6) mod 7) - nd) mod 7 - 1 + 6) mod 7 = 6"
proof -
  define s where "s = (f + 6) mod 7"
  define da where "da = (- s - nd) mod 7"
  have "(f + 6 + (nd + da)) mod 7 = (s + (nd + da)) mod 7"
    unfolding s_def by (rule mod_add_left_eq[symmetric])
  also have "s + (nd + da) = s + nd + (- s - nd) mod 7" by (simp add: da_def)
  also have "(s + nd + (- s - nd) mod 7) mod 7 = 0" by (rule pad_after)
  finally have "7 dvd (f + 6 + (nd + da))" by (simp add: mod_eq_0_iff_dvd)
  then obtain k where k: "f + 6 + (nd + da) = 7 * k" by (auto elim: dvdE)
  have e: "f + nd + da - 1 + 6 = 7 * (k - 1) + 6" using k by (simp add: algebra_simps)
  have "(7 * (k - 1) + 6) mod 7 = 6 mod (7::int)" by (rule mod_mult_self4)
  then have "(f + nd + da - 1 + 6) mod 7 = 6" unfolding e by simp
  then show ?thesis unfolding da_def s_def .
qed

lemma hd_upto_int: "i \<le> j \<Longrightarrow> hd [i..j] = (i::int)"
  by (simp add: upto_rec1)

lemma last_upto_int: "i \<le> j \<Longrightarrow> last [i..j] = (j::int)"
  by (simp add: upto_rec2)

text \<open>What the rest of the calendar needs of the grid: its rows, its first and its
  last day, and their bounds.\<close>

lemma grid_summary:
  assumes "date_new y m 1 = Inr anchor" and "(y, m) \<noteq> (9999, 12)"
  shows "\<exists>ds gs ge. monthdatescalendar y m = Inr (chunks7 ds) \<and> ds \<noteq> []
          \<and> map toordinal ds = [gs .. ge] \<and> 7 dvd length ds
          \<and> toordinal (hd ds) = gs \<and> toordinal (last ds) = ge
          \<and> first_first (chunks7 ds) = Inr (hd ds) \<and> last_last (chunks7 ds) = Inr (last ds)
          \<and> gs = toordinal anchor - weekday_of (toordinal anchor)
          \<and> ge = ymd2ord y m (days_in_month y m)
                 + (- weekday_of (toordinal anchor) - days_in_month y m) mod 7
          \<and> 1 \<le> gs \<and> gs \<le> ge \<and> ge < MAXORDINAL
          \<and> (\<forall>d p. date_new y m d = Inr p \<longrightarrow> p \<in> set ds)"
proof -
  from date_new_Inr[OF assms(1)]
  have v: "1 \<le> y" "y \<le> 9999" "1 \<le> m" "m \<le> 12" and an: "anchor = \<lparr>year = y, month = m, day = 1\<rparr>"
    by simp_all
  define first where "first = ymd2ord y m 1"
  define nd where "nd = days_in_month y m"
  define day1 where "day1 = weekday_of first"
  define da where "da = (- day1 - nd) mod 7"
  have ta: "toordinal anchor = first" by (simp add: an toordinal_def first_def)
  obtain ds where g: "monthdatescalendar y m = Inr (chunks7 ds)"
      "map toordinal ds = [first - day1 .. first + nd + da - 1]"
      "7 dvd length ds"
      "set (map (\<lambda>d. \<lparr>year = y, month = m, day = d\<rparr>) [1 .. nd]) \<subseteq> set ds"
    using grid[OF v assms(2)] unfolding first_def nd_def day1_def da_def by blast
  have d1: "0 \<le> day1" "day1 \<le> 6" using weekday_of_range[of first] by (simp_all add: day1_def)
  have dar: "0 \<le> da" "da \<le> 6" by (simp_all add: da_def)
  have ndr: "28 \<le> nd" "nd \<le> 31"
    using days_in_month_bounds[OF v(3,4), of y] by (simp_all add: nd_def)
  have le: "first - day1 \<le> first + nd + da - 1" using d1 dar ndr by simp
  have ne: "ds \<noteq> []"
  proof
    assume "ds = []"
    then have "[first - day1 .. first + nd + da - 1] = []" using g(2) by simp
    then show False using le by simp
  qed
  have h: "toordinal (hd ds) = first - day1"
  proof -
    have "toordinal (hd ds) = hd (map toordinal ds)" using ne by (simp add: hd_map)
    then show ?thesis unfolding g(2) using hd_upto_int[OF le] by simp
  qed
  have l: "toordinal (last ds) = first + nd + da - 1"
  proof -
    have "toordinal (last ds) = last (map toordinal ds)" using ne by (simp add: last_map)
    then show ?thesis unfolding g(2) using last_upto_int[OF le] by simp
  qed
  have lastday: "ymd2ord y m nd = first + nd - 1"
    using ymd2ord_day[of y m nd] by (simp add: first_def)
  have pos: "1 \<le> first - day1"
  proof (cases "day1 = 0")
    case True
    then show ?thesis using ymd2ord_pos[OF v(1) v(3,4), of 1] by (simp add: first_def)
  next
    case False
    have "(y, m) \<noteq> (1, 1)"
    proof
      assume "(y, m) = (1, 1)"
      then have "day1 = 0" using first_of_year_one by (simp add: day1_def first_def)
      then show False using False by simp
    qed
    then consider "2 \<le> y" | "y = 1" "2 \<le> m" using v(1,3) by fastforce
    then have "32 \<le> first"
    proof cases
      case 1
      have "days_before_year 2 \<le> days_before_year y" using 1 by (rule days_before_year_mono)
      moreover have "days_before_year 2 = 365" by (simp add: days_before_year_def)
      ultimately show ?thesis
        using days_before_month_bounds[OF v(3,4), of y] by (simp add: first_def ymd2ord_def)
    next
      case 2
      have "31 \<le> days_before_month y m"
        using month_cases[OF v(3,4)] 2(2)
        by (auto simp: days_before_month_def DAYS_BEFORE_MONTH_def)
      moreover have "days_before_year 1 = 0" by (simp add: days_before_year_def)
      ultimately show ?thesis using 2(1) by (simp add: first_def ymd2ord_def)
    qed
    then show ?thesis using d1 by simp
  qed
  have up: "first + nd + da - 1 < MAXORDINAL"
    using ymd2ord_upper[OF v(2) v(3,4) assms(2), of nd] lastday dar
    by (simp add: nd_def MAXORDINAL_def)
  have mem: "\<forall>d p. date_new y m d = Inr p \<longrightarrow> p \<in> set ds"
  proof (intro allI impI)
    fix d p assume "date_new y m d = Inr p"
    from date_new_Inr[OF this] have "1 \<le> d" "d \<le> nd" "p = \<lparr>year = y, month = m, day = d\<rparr>"
      by (simp_all add: nd_def)
    then have "p \<in> set (map (\<lambda>d. \<lparr>year = y, month = m, day = d\<rparr>) [1 .. nd])" by simp
    then show "p \<in> set ds" using g(4) by blast
  qed
  have e1: "first - day1 = toordinal anchor - weekday_of (toordinal anchor)"
    by (simp add: ta day1_def)
  have e2: "first + nd + da - 1 = ymd2ord y m (days_in_month y m)
                 + (- weekday_of (toordinal anchor) - days_in_month y m) mod 7"
    using lastday by (simp add: ta da_def day1_def nd_def)
  show ?thesis
  proof (intro exI conjI)
    show "monthdatescalendar y m = Inr (chunks7 ds)" by (fact g(1))
    show "ds \<noteq> []" by (fact ne)
    show "map toordinal ds = [first - day1 .. first + nd + da - 1]" by (fact g(2))
    show "7 dvd length ds" by (fact g(3))
    show "toordinal (hd ds) = first - day1" by (fact h)
    show "toordinal (last ds) = first + nd + da - 1" by (fact l)
    show "first_first (chunks7 ds) = Inr (hd ds)" by (rule first_first_chunks7[OF ne])
    show "last_last (chunks7 ds) = Inr (last ds)" by (rule last_last_chunks7[OF ne])
    show "first - day1 = toordinal anchor - weekday_of (toordinal anchor)" by (fact e1)
    show "first + nd + da - 1 = ymd2ord y m (days_in_month y m)
                 + (- weekday_of (toordinal anchor) - days_in_month y m) mod 7" by (fact e2)
    show "1 \<le> first - day1" by (fact pos)
    show "first - day1 \<le> first + nd + da - 1" by (fact le)
    show "first + nd + da - 1 < MAXORDINAL" by (fact up)
    show "\<forall>d p. date_new y m d = Inr p \<longrightarrow> p \<in> set ds" by (fact mem)
  qed
qed

section \<open>The claims about the calendar\<close>

text \<open>
  C7 (as stated). For every anchor month the builder would produce a grid. For
  December 9999 it produces none: the week of 9999-12-31 ends in January 10000, which
  is not a date, so the grid and with it the calendar fail with ValueError.
\<close>

theorem C7_counterexample:
  "date_new 9999 12 1 = Inr \<lparr>year = 9999, month = 12, day = 1\<rparr>
   \<and> monthdatescalendar 9999 12 = Inl ValueError
   \<and> build_calendar \<lparr>year = 9999, month = 12, day = 1\<rparr> [] None
        \<lparr>year = 2025, month = 6, day = 9\<rparr> = Inl ValueError"
  by code_simp

text \<open>
  C7 (amended). For every anchor month but December 9999, the grid is a non-empty
  list of rows of exactly 7 days; its days are consecutive dates; its first day,
  \<open>weeks[0][0]\<close>, is the Monday on or before the 1st of the month, and its last day,
  \<open>weeks[-1][-1]\<close>, is the Sunday on or after the last day of the month; every day of
  the month is in the grid.
\<close>

theorem C7_calendar_grid:
  assumes "date_new y m 1 = Inr anchor" and "(y, m) \<noteq> (9999, 12)"
  shows "\<exists>ws. monthdatescalendar y m = Inr ws \<and> ws \<noteq> []
     \<and> (\<forall>w\<in>set ws. length w = 7)
     \<and> map toordinal (concat ws) = [toordinal (hd (concat ws)) .. toordinal (last (concat ws))]
     \<and> first_first ws = Inr (hd (concat ws)) \<and> last_last ws = Inr (last (concat ws))
     \<and> weekday_of (toordinal (hd (concat ws))) = 0
     \<and> toordinal (hd (concat ws)) \<le> toordinal anchor
     \<and> toordinal anchor - toordinal (hd (concat ws)) < 7
     \<and> weekday_of (toordinal (last (concat ws))) = 6
     \<and> (\<exists>p. date_new y m (days_in_month y m) = Inr p
            \<and> date_new y m (days_in_month y m + 1) = Inl ValueError
            \<and> toordinal p \<le> toordinal (last (concat ws))
            \<and> toordinal (last (concat ws)) - toordinal p < 7)
     \<and> (\<forall>d p. date_new y m d = Inr p \<longrightarrow> p \<in> set (concat ws))"
proof -
  from date_new_Inr[OF assms(1)]
  have v: "1 \<le> y" "y \<le> 9999" "1 \<le> m" "m \<le> 12" by simp_all
  obtain ds gs ge where g: "monthdatescalendar y m = Inr (chunks7 ds)" "ds \<noteq> []"
      "map toordinal ds = [gs .. ge]" "7 dvd length ds"
      "toordinal (hd ds) = gs" "toordinal (last ds) = ge"
      "first_first (chunks7 ds) = Inr (hd ds)" "last_last (chunks7 ds) = Inr (last ds)"
      "gs = toordinal anchor - weekday_of (toordinal anchor)"
      "ge = ymd2ord y m (days_in_month y m)
             + (- weekday_of (toordinal anchor) - days_in_month y m) mod 7"
      "\<forall>d p. date_new y m d = Inr p \<longrightarrow> p \<in> set ds"
    using grid_summary[OF assms] by blast
  let ?nd = "days_in_month y m"
  let ?p = "\<lparr>year = y, month = m, day = ?nd\<rparr>"
  have ndr: "28 \<le> ?nd" using days_in_month_bounds[OF v(3,4), of y] by simp
  have wr: "0 \<le> weekday_of (toordinal anchor)" "weekday_of (toordinal anchor) \<le> 6"
    using weekday_of_range[of "toordinal anchor"] by simp_all
  have c: "concat (chunks7 ds) = ds" by (rule chunks7_concat)
  have lastp: "date_new y m ?nd = Inr ?p"
    using v ndr by (intro date_new_valid) simp_all
  have after: "date_new y m (?nd + 1) = Inl ValueError"
    using v by (simp add: date_new_def MINYEAR_def MAXYEAR_def)
  have tp: "toordinal ?p = ymd2ord y m ?nd" by (simp add: toordinal_def)
  have mon: "weekday_of gs = 0"
    unfolding g(9) weekday_of_def by (rule monday_before)
  have ta: "toordinal anchor = ymd2ord y m 1"
    using date_new_Inr[OF assms(1)] by (simp add: toordinal_def)
  have "ge = ymd2ord y m 1 + ?nd + (- ((ymd2ord y m 1 + 6) mod 7) - ?nd) mod 7 - 1"
    unfolding g(10) ta weekday_of_def using ymd2ord_day[of y m ?nd] by simp
  then have sun: "weekday_of ge = 6"
    unfolding weekday_of_def using sunday_after[of "ymd2ord y m 1" ?nd] by simp
  show ?thesis
  proof (intro exI conjI)
    show "monthdatescalendar y m = Inr (chunks7 ds)" by (fact g(1))
    show "chunks7 ds \<noteq> []" using g(2) by (rule chunks7_ne)
    show "\<forall>w\<in>set (chunks7 ds). length w = 7" using chunks7_rows_7[OF g(4)] by blast
    show "map toordinal (concat (chunks7 ds))
        = [toordinal (hd (concat (chunks7 ds))) .. toordinal (last (concat (chunks7 ds)))]"
      unfolding c g(5,6) by (fact g(3))
    show "first_first (chunks7 ds) = Inr (hd (concat (chunks7 ds)))" unfolding c by (fact g(7))
    show "last_last (chunks7 ds) = Inr (last (concat (chunks7 ds)))" unfolding c by (fact g(8))
    show "weekday_of (toordinal (hd (concat (chunks7 ds)))) = 0" unfolding c g(5) by (fact mon)
    show "toordinal (hd (concat (chunks7 ds))) \<le> toordinal anchor"
      unfolding c g(5) g(9) using wr by simp
    show "toordinal anchor - toordinal (hd (concat (chunks7 ds))) < 7"
      unfolding c g(5) g(9) using wr by simp
    show "weekday_of (toordinal (last (concat (chunks7 ds)))) = 6" unfolding c g(6) by (fact sun)
    show "date_new y m ?nd = Inr ?p" by (fact lastp)
    show "date_new y m (?nd + 1) = Inl ValueError" by (fact after)
    show "toordinal ?p \<le> toordinal (last (concat (chunks7 ds)))"
      unfolding c g(6) g(10) tp by simp
    show "toordinal (last (concat (chunks7 ds))) - toordinal ?p < 7"
      unfolding c g(6) g(10) tp by simp
    show "\<forall>d p. date_new y m d = Inr p \<longrightarrow> p \<in> set (concat (chunks7 ds))"
      unfolding c by (fact g(11))
  qed
qed

lemma ex_anchor_valid: "date_new 2025 6 1 = Inr \<lparr>year = 2025, month = 6, day = 1\<rparr>"
  by code_simp

theorem C7_calendar_grid_witness:
  "date_new 2025 6 1 = Inr \<lparr>year = 2025, month = 6, day = 1\<rparr>
   \<and> ((2025::int), (6::int)) \<noteq> (9999, 12)
   \<and> (\<exists>ws. monthdatescalendar 2025 6 = Inr ws \<and> ws \<noteq> []
     \<and> (\<forall>w\<in>set ws. length w = 7)
     \<and> map toordinal (concat ws) = [toordinal (hd (concat ws)) .. toordinal (last (concat ws))]
     \<and> first_first ws = Inr (hd (concat ws)) \<and> last_last ws = Inr (last (concat ws))
     \<and> weekday_of (toordinal (hd (concat ws))) = 0
     \<and> toordinal (hd (concat ws)) \<le> toordinal \<lparr>year = 2025, month = 6, day = 1\<rparr>
     \<and> toordinal \<lparr>year = 2025, month = 6, day = 1\<rparr> - toordinal (hd (concat ws)) < 7
     \<and> weekday_of (toordinal (last (concat ws))) = 6
     \<and> (\<exists>p. date_new 2025 6 (days_in_month 2025 6) = Inr p
            \<and> date_new 2025 6 (days_in_month 2025 6 + 1) = Inl ValueError
            \<and> toordinal p \<le> toordinal (last (concat ws))
            \<and> toordinal (last (concat ws)) - toordinal p < 7)
     \<and> (\<forall>d p. date_new 2025 6 d = Inr p \<longrightarrow> p \<in> set (concat ws)))"
proof -
  have n: "((2025::int), (6::int)) \<noteq> (9999, 12)" by simp
  show ?thesis
    using ex_anchor_valid n C7_calendar_grid[OF ex_anchor_valid n] by (intro conjI)
qed

subsection \<open>The calendar view\<close>

lemma daterange_upto:
  "0 \<le> a \<Longrightarrow> e < MAXORDINAL \<Longrightarrow> daterange a e = ([a..e], None)"
proof (induction a e rule: daterange.induct)
  case (1 current stop)
  show ?case
  proof (cases "current \<le> stop")
    case True
    then have ok: "0 < current + 1 \<and> current + 1 \<le> MAXORDINAL" using "1.prems" True by simp
    have ih: "daterange (current + 1) stop = ([current + 1..stop], None)"
      using "1.IH"[OF True ok] "1.prems" by simp
    have u: "[current..stop] = current # [current + 1..stop]" using True by (simp add: upto_rec1)
    show ?thesis
      by (subst daterange.simps) (use "1.prems" True ok in \<open>simp add: ih u\<close>)
  next
    case False
    then show ?thesis by (subst daterange.simps) simp
  qed
qed

lemma get_or_empty_setdefault:
  "get_or_empty (setdefault_append m k b) d
     = get_or_empty m d @ (if d = k then [b] else [])"
  by (simp add: get_or_empty_def setdefault_append_def)

lemma foldl_setdefault:
  "distinct ds \<Longrightarrow>
   get_or_empty (foldl (\<lambda>acc k. setdefault_append acc k b) m ds) d
     = get_or_empty m d @ (if d \<in> set ds then [b] else [])"
proof (induction ds arbitrary: m)
  case Nil
  then show ?case by simp
next
  case (Cons k ds)
  then show ?case by (auto simp: get_or_empty_setdefault)
qed

lemma bucket_ok:
  assumes "0 \<le> gs" and "ge < MAXORDINAL"
  shows "\<exists>m'. bucket gs ge bs m = Inr m'
           \<and> (\<forall>d. get_or_empty m' d = get_or_empty m d
                  @ filter (\<lambda>b. max (start_at b) gs \<le> d \<and> d \<le> min (end_at b) ge) bs)"
proof (induction bs arbitrary: m)
  case Nil
  then show ?case by simp
next
  case (Cons b bs)
  let ?ss = "max (start_at b) gs" and ?se = "min (end_at b) ge"
  let ?m1 = "foldl (\<lambda>acc k. setdefault_append acc k b) m [?ss..?se]"
  have dr: "daterange ?ss ?se = ([?ss..?se], None)"
    using assms by (intro daterange_upto) simp_all
  have step: "bucket gs ge (b # bs) m = bucket gs ge bs ?m1"
    by (simp add: Let_def dr)
  obtain m' where m': "bucket gs ge bs ?m1 = Inr m'"
    "\<forall>d. get_or_empty m' d = get_or_empty ?m1 d
          @ filter (\<lambda>b. max (start_at b) gs \<le> d \<and> d \<le> min (end_at b) ge) bs"
    using Cons[of ?m1] by blast
  have one: "\<And>d. get_or_empty ?m1 d = get_or_empty m d @ (if ?ss \<le> d \<and> d \<le> ?se then [b] else [])"
    using foldl_setdefault[of "[?ss..?se]" b m] by simp
  have "\<forall>d. get_or_empty m' d = get_or_empty m d
          @ filter (\<lambda>b. max (start_at b) gs \<le> d \<and> d \<le> min (end_at b) ge) (b # bs)"
    using m'(2) one by simp
  then show ?case using step m'(1) by simp
qed

lemma bucket_grid:
  assumes "0 \<le> gs" and "ge < MAXORDINAL"
  shows "\<exists>m'. bucket gs ge bs Map.empty = Inr m'
           \<and> (\<forall>d. gs \<le> d \<and> d \<le> ge \<longrightarrow>
                  get_or_empty m' d = filter (\<lambda>b. start_at b \<le> d \<and> d \<le> end_at b) bs)"
proof -
  obtain m' where m': "bucket gs ge bs Map.empty = Inr m'"
    "\<forall>d. get_or_empty m' d = get_or_empty Map.empty d
          @ filter (\<lambda>b. max (start_at b) gs \<le> d \<and> d \<le> min (end_at b) ge) bs"
    using bucket_ok[OF assms, of bs Map.empty] by blast
  have "\<forall>d. gs \<le> d \<and> d \<le> ge \<longrightarrow>
          get_or_empty m' d = filter (\<lambda>b. start_at b \<le> d \<and> d \<le> end_at b) bs"
  proof (intro allI impI)
    fix d assume d: "gs \<le> d \<and> d \<le> ge"
    have "filter (\<lambda>b. max (start_at b) gs \<le> d \<and> d \<le> min (end_at b) ge) bs
        = filter (\<lambda>b. start_at b \<le> d \<and> d \<le> end_at b) bs"
      using d by (intro filter_cong) auto
    then show "get_or_empty m' d = filter (\<lambda>b. start_at b \<le> d \<and> d \<le> end_at b) bs"
      using m'(2) by (simp add: get_or_empty_def)
  qed
  then show ?thesis using m'(1) by blast
qed

lemma count_filter_filter:
  "int (length (filter (\<lambda>b. status b = st) (filter (\<lambda>b. start_at b \<le> d \<and> d \<le> end_at b) bs)))
     = spec_count st d bs"
  by (simp add: spec_count_def conj_commute)

lemma find_upto_Some:
  "(find P [a..b] = Some d) =
     (a \<le> d \<and> d \<le> b \<and> P d \<and> (\<forall>d'. a \<le> d' \<and> d' < d \<longrightarrow> \<not> P d'))"
proof (induction a b rule: upto.induct)
  case (1 i j)
  show ?case
  proof (cases "i \<le> j")
    case True
    have u: "[i..j] = i # [i + 1..j]" using True by (simp add: upto_rec1)
    show ?thesis
    proof (cases "P i")
      case p: True
      have "(i = d) = (i \<le> d \<and> d \<le> j \<and> P d \<and> (\<forall>d'. i \<le> d' \<and> d' < d \<longrightarrow> \<not> P d'))"
        using p True by (metis order.refl not_le order.order_iff_strict)
      then show ?thesis unfolding u using p by simp
    next
      case np: False
      have "(i + 1 \<le> d \<and> d \<le> j \<and> P d \<and> (\<forall>d'. i + 1 \<le> d' \<and> d' < d \<longrightarrow> \<not> P d'))
          = (i \<le> d \<and> d \<le> j \<and> P d \<and> (\<forall>d'. i \<le> d' \<and> d' < d \<longrightarrow> \<not> P d'))"
      proof -
        have a: "\<And>d'. (i \<le> d') = (d' = i \<or> i + 1 \<le> d')" by linarith
        show ?thesis using np by (auto simp: a)
      qed
      then show ?thesis unfolding u using np 1[OF True] by simp
    qed
  next
    case False
    then show ?thesis by auto
  qed
qed

lemma find_upto_None:
  "(find P [a..b] = None) = (\<not> (\<exists>d. a \<le> d \<and> d \<le> b \<and> P d))"
  by (simp add: find_None_iff)

lemma next_available_ok:
  assumes "0 \<le> lo" and "ge < MAXORDINAL"
  shows "next_available bbd lo ge =
     Inr (find (\<lambda>d. approved_count (get_or_empty bbd d) < CAPACITY_PER_DAY) [lo .. ge])"
  by (simp add: next_available_def daterange_upto[OF assms] split: option.splits)

lemma build_calendar_fails_9999_12:
  "build_calendar \<lparr>year = 9999, month = 12, day = 1\<rparr> bs sel today = Inl ValueError"
  by (simp add: build_calendar_def calendar_fails_9999_12)

lemma build_calendar_ok:
  assumes "date_new y m 1 = Inr anchor" and "(y, m) \<noteq> (9999, 12)"
  shows "\<exists>resp ds gs ge bbd. build_calendar anchor bs sel today = Inr resp
     \<and> monthdatescalendar y m = Inr (chunks7 ds) \<and> ds \<noteq> []
     \<and> first_first (chunks7 ds) = Inr (hd ds) \<and> last_last (chunks7 ds) = Inr (last ds)
     \<and> gs = toordinal (hd ds) \<and> ge = toordinal (last ds)
     \<and> map toordinal ds = [gs .. ge] \<and> gs \<le> ge
     \<and> (\<forall>d. gs \<le> d \<and> d \<le> ge \<longrightarrow>
            get_or_empty bbd d = filter (\<lambda>b. start_at b \<le> d \<and> d \<le> end_at b) bs)
     \<and> weeks (calendar resp) = map (map (calendar_day anchor today bbd)) (chunks7 ds)
     \<and> nextAvailableLabel (calendar resp)
          = find (\<lambda>d. approved_count (get_or_empty bbd d) < CAPACITY_PER_DAY)
              [max (toordinal today) gs .. ge]
     \<and> gs \<le> selectedIso (calendar resp) \<and> selectedIso (calendar resp) \<le> ge
     \<and> selectedDay resp = build_day_detail (selectedIso (calendar resp))
                             (get_or_empty bbd (selectedIso (calendar resp)))"
proof -
  from date_new_Inr[OF assms(1)]
  have v: "1 \<le> y" "y \<le> 9999" "1 \<le> m" "m \<le> 12" and an: "anchor = \<lparr>year = y, month = m, day = 1\<rparr>"
    by simp_all
  have ya: "year anchor = y" "month anchor = m" by (simp_all add: an)
  obtain ds gs ge where g: "monthdatescalendar y m = Inr (chunks7 ds)" "ds \<noteq> []"
      "map toordinal ds = [gs .. ge]"
      "toordinal (hd ds) = gs" "toordinal (last ds) = ge"
      "first_first (chunks7 ds) = Inr (hd ds)" "last_last (chunks7 ds) = Inr (last ds)"
      "gs = toordinal anchor - weekday_of (toordinal anchor)"
      "ge = ymd2ord y m (days_in_month y m)
             + (- weekday_of (toordinal anchor) - days_in_month y m) mod 7"
      "1 \<le> gs" "gs \<le> ge" "ge < MAXORDINAL"
    using grid_summary[OF assms] by blast
  have gs0: "0 \<le> gs" using g(10) by simp
  obtain bbd where b: "bucket gs ge bs Map.empty = Inr bbd"
      "\<forall>d. gs \<le> d \<and> d \<le> ge \<longrightarrow>
          get_or_empty bbd d = filter (\<lambda>b. start_at b \<le> d \<and> d \<le> end_at b) bs"
    using bucket_grid[OF gs0 g(12), of bs] by blast
  have mr: "monthrange y m = Inr (weekday_of (ymd2ord y m 1), days_in_month y m)"
    using v by (rule monthrange_valid)
  have ndr: "28 \<le> days_in_month y m" using days_in_month_bounds[OF v(3,4), of y] by simp
  have me: "date_new y m (days_in_month y m) = Inr \<lparr>year = y, month = m, day = days_in_month y m\<rparr>"
    using v ndr by (intro date_new_valid) simp_all
  have lo0: "0 \<le> max (toordinal today) gs" using gs0 by simp
  have na: "next_available bbd (max (toordinal today) gs) ge =
     Inr (find (\<lambda>d. approved_count (get_or_empty bbd d) < CAPACITY_PER_DAY)
            [max (toordinal today) gs .. ge])"
    using lo0 g(12) by (rule next_available_ok)
  have wr: "0 \<le> weekday_of (toordinal anchor)"
    using weekday_of_range[of "toordinal anchor"] by simp
  have ta: "toordinal anchor = ymd2ord y m 1" by (simp add: an toordinal_def)
  have a_lo: "gs \<le> toordinal anchor" unfolding g(8) using wr by simp
  have a_hi: "toordinal anchor \<le> ge"
    unfolding g(9) ta using ymd2ord_day[of y m "days_in_month y m"] ndr by simp
  define selected0 where "selected0 = (case sel of
                         Some sd \<Rightarrow> sd
                       | None \<Rightarrow> if year anchor = year today \<and> month anchor = month today
                                 then toordinal today else toordinal anchor)"
  define selected where "selected = (if selected0 < gs \<or> selected0 > ge
                      then toordinal anchor else selected0)"
  have sr: "gs \<le> selected" "selected \<le> ge"
    using a_lo a_hi by (auto simp: selected_def)
  have bc: "\<exists>tb tp tr pr. build_calendar anchor bs sel today =
      Inr \<lparr>calendar = \<lparr>selectedIso = selected, totalBookings = tb, month_pendingCount = tp,
                        month_remainingSlots = tr,
                        nextAvailableLabel = find (\<lambda>d. approved_count (get_or_empty bbd d) < CAPACITY_PER_DAY)
                            [max (toordinal today) gs .. ge],
                        weeks = map (map (calendar_day anchor today bbd)) (chunks7 ds)\<rparr>,
           selectedDay = build_day_detail selected (get_or_empty bbd selected),
           pendingRequests = pr\<rparr>"
    unfolding build_calendar_def ya g(1) selected_def selected0_def
    by (simp add: g(4,5,6,7) b(1) mr me na Let_def ya)
  then obtain tb tp tr pr where r: "build_calendar anchor bs sel today =
      Inr \<lparr>calendar = \<lparr>selectedIso = selected, totalBookings = tb, month_pendingCount = tp,
                        month_remainingSlots = tr,
                        nextAvailableLabel = find (\<lambda>d. approved_count (get_or_empty bbd d) < CAPACITY_PER_DAY)
                            [max (toordinal today) gs .. ge],
                        weeks = map (map (calendar_day anchor today bbd)) (chunks7 ds)\<rparr>,
           selectedDay = build_day_detail selected (get_or_empty bbd selected),
           pendingRequests = pr\<rparr>"
    by blast
  show ?thesis
    apply (rule exI, rule exI[of _ ds], rule exI[of _ gs], rule exI[of _ ge], rule exI[of _ bbd])
    apply (intro conjI)
                 apply (rule r)
                apply (rule g(1))
               apply (rule g(2))
              apply (rule g(6))
             apply (rule g(7))
            apply (rule g(4)[symmetric])
           apply (rule g(5)[symmetric])
          apply (rule g(3))
         apply (rule g(11))
        apply (rule b(2))
       apply simp
      apply simp
     apply (simp add: sr)
    apply (simp add: sr)
    apply simp
    done
qed

lemma approved_count_span:
  "approved_count (filter (\<lambda>b. start_at b \<le> d \<and> d \<le> end_at b) bs) = spec_count approved d bs"
  unfolding approved_count_def by (rule count_filter_filter)

lemma pending_count_span:
  "pending_count (filter (\<lambda>b. start_at b \<le> d \<and> d \<le> end_at b) bs) = spec_count pending d bs"
  unfolding pending_count_def by (rule count_filter_filter)

lemma day_detail_counts:
  "confirmedCount (build_day_detail d bs) = approved_count bs"
  "detail_pendingCount (build_day_detail d bs) = pending_count bs"
  "detail_remainingSlots (build_day_detail d bs) = max 0 (1 - approved_count bs)"
  "detail_iso (build_day_detail d bs) = d"
  by (simp_all add: build_day_detail_def Let_def CAPACITY_PER_DAY_def)

lemma calendar_day_counts:
  "iso (calendar_day anchor today bbd p) = toordinal p"
  "pendingCount (calendar_day anchor today bbd p) = pending_count (get_or_empty bbd (toordinal p))"
  "remainingSlots (calendar_day anchor today bbd p)
     = max 0 (1 - approved_count (get_or_empty bbd (toordinal p)))"
  "isFull (calendar_day anchor today bbd p) = (approved_count (get_or_empty bbd (toordinal p)) \<ge> 1)"
  by (simp_all add: calendar_day_def Let_def CAPACITY_PER_DAY_def)

lemma calendar_day_iso: "iso \<circ> calendar_day anchor today bbd = toordinal"
  by (simp add: fun_eq_iff calendar_day_counts)

lemma get_calendar_day_rows:
  "filter (\<lambda>b. start_at b \<le> dv \<and> dv \<le> end_at b) (fetch_bookings_for_range d rid dv dv)
     = filter (\<lambda>b. start_at b \<le> dv \<and> dv \<le> end_at b)
         (filter (\<lambda>b. resource_id b = rid) (bookings d))"
  unfolding fetch_bookings_for_range_def filter_filter
  by (rule filter_cong) auto

text \<open>
  C8. In the calendar view, which is built for every anchor month but December 9999,
  every grid day has \<open>pendingCount\<close> equal to the number of pending bookings whose
  span contains the day, \<open>remainingSlots = max(0, 1 - approvedCount)\<close>, never negative,
  and \<open>isFull\<close> exactly when \<open>approvedCount \<ge> 1\<close>, where \<open>approvedCount\<close> is the number
  of approved bookings whose span contains the day. The day detail of the selected
  day and the day detail of the day endpoint give \<open>confirmedCount\<close> and
  \<open>pendingCount\<close> as those numbers and the remaining slots likewise.
\<close>

theorem C8_day_counts:
  assumes "date_new y m 1 = Inr anchor"
  shows "((y = 9999 \<and> m = 12 \<and> build_calendar anchor bs sel today = Inl ValueError)
       \<or> (\<exists>resp ws. build_calendar anchor bs sel today = Inr resp
             \<and> monthdatescalendar y m = Inr ws
             \<and> map (map iso) (weeks (calendar resp)) = map (map toordinal) ws
             \<and> (\<forall>w\<in>set (weeks (calendar resp)). \<forall>cd\<in>set w.
                   pendingCount cd = spec_count pending (iso cd) bs
                 \<and> remainingSlots cd = max 0 (1 - spec_count approved (iso cd) bs)
                 \<and> 0 \<le> remainingSlots cd
                 \<and> isFull cd = (spec_count approved (iso cd) bs \<ge> 1))
             \<and> detail_iso (selectedDay resp) = selectedIso (calendar resp)
             \<and> confirmedCount (selectedDay resp)
                 = spec_count approved (detail_iso (selectedDay resp)) bs
             \<and> detail_pendingCount (selectedDay resp)
                 = spec_count pending (detail_iso (selectedDay resp)) bs
             \<and> detail_remainingSlots (selectedDay resp)
                 = max 0 (1 - confirmedCount (selectedDay resp))
             \<and> 0 \<le> detail_remainingSlots (selectedDay resp)))
     \<and> detail_iso (get_calendar_day d dv rid) = dv
     \<and> confirmedCount (get_calendar_day d dv rid)
         = spec_count approved dv (filter (\<lambda>b. resource_id b = rid) (bookings d))
     \<and> detail_pendingCount (get_calendar_day d dv rid)
         = spec_count pending dv (filter (\<lambda>b. resource_id b = rid) (bookings d))
     \<and> detail_remainingSlots (get_calendar_day d dv rid)
         = max 0 (1 - confirmedCount (get_calendar_day d dv rid))
     \<and> 0 \<le> detail_remainingSlots (get_calendar_day d dv rid)"
proof -
  have cal: "(y = 9999 \<and> m = 12 \<and> build_calendar anchor bs sel today = Inl ValueError)
       \<or> (\<exists>resp ws. build_calendar anchor bs sel today = Inr resp
             \<and> monthdatescalendar y m = Inr ws
             \<and> map (map iso) (weeks (calendar resp)) = map (map toordinal) ws
             \<and> (\<forall>w\<in>set (weeks (calendar resp)). \<forall>cd\<in>set w.
                   pendingCount cd = spec_count pending (iso cd) bs
                 \<and> remainingSlots cd = max 0 (1 - spec_count approved (iso cd) bs)
                 \<and> 0 \<le> remainingSlots cd
                 \<and> isFull cd = (spec_count approved (iso cd) bs \<ge> 1))
             \<and> detail_iso (selectedDay resp) = selectedIso (calendar resp)
             \<and> confirmedCount (selectedDay resp)
                 = spec_count approved (detail_iso (selectedDay resp)) bs
             \<and> detail_pendingCount (selectedDay resp)
                 = spec_count pending (detail_iso (selectedDay resp)) bs
             \<and> detail_remainingSlots (selectedDay resp)
                 = max 0 (1 - confirmedCount (selectedDay resp))
             \<and> 0 \<le> detail_remainingSlots (selectedDay resp))"
  proof (cases "(y, m) = (9999, 12)")
    case True
    then have "anchor = \<lparr>year = 9999, month = 12, day = 1\<rparr>"
      using date_new_Inr[OF assms] by simp
    then show ?thesis using True build_calendar_fails_9999_12 by simp
  next
    case False
    obtain resp ds gs ge bbd where r: "build_calendar anchor bs sel today = Inr resp"
        "monthdatescalendar y m = Inr (chunks7 ds)"
        "map toordinal ds = [gs .. ge]"
        "\<forall>d. gs \<le> d \<and> d \<le> ge \<longrightarrow>
            get_or_empty bbd d = filter (\<lambda>b. start_at b \<le> d \<and> d \<le> end_at b) bs"
        "weeks (calendar resp) = map (map (calendar_day anchor today bbd)) (chunks7 ds)"
        "gs \<le> selectedIso (calendar resp)" "selectedIso (calendar resp) \<le> ge"
        "selectedDay resp = build_day_detail (selectedIso (calendar resp))
                             (get_or_empty bbd (selectedIso (calendar resp)))"
      using build_calendar_ok[OF assms False, of bs sel today] by blast
    have isos: "map (map iso) (weeks (calendar resp)) = map (map toordinal) (chunks7 ds)"
      unfolding r(5) by (simp add: calendar_day_iso)
    have days: "\<forall>w\<in>set (weeks (calendar resp)). \<forall>cd\<in>set w.
                   pendingCount cd = spec_count pending (iso cd) bs
                 \<and> remainingSlots cd = max 0 (1 - spec_count approved (iso cd) bs)
                 \<and> 0 \<le> remainingSlots cd
                 \<and> isFull cd = (spec_count approved (iso cd) bs \<ge> 1)"
    proof (intro ballI)
      fix w cd assume w: "w \<in> set (weeks (calendar resp))" and cd: "cd \<in> set w"
      from w obtain row where row: "row \<in> set (chunks7 ds)"
          "w = map (calendar_day anchor today bbd) row"
        unfolding r(5) by auto
      from cd row(2) obtain p where p: "p \<in> set row" "cd = calendar_day anchor today bbd p"
        by auto
      have "p \<in> set (concat (chunks7 ds))" using row(1) p(1) by auto
      then have "p \<in> set ds" by (simp only: chunks7_concat)
      then have "toordinal p \<in> set (map toordinal ds)" by simp
      then have rng: "gs \<le> toordinal p \<and> toordinal p \<le> ge" unfolding r(3) by simp
      have rows: "get_or_empty bbd (toordinal p)
          = filter (\<lambda>b. start_at b \<le> toordinal p \<and> toordinal p \<le> end_at b) bs"
        using r(4) rng by blast
      show "pendingCount cd = spec_count pending (iso cd) bs
                 \<and> remainingSlots cd = max 0 (1 - spec_count approved (iso cd) bs)
                 \<and> 0 \<le> remainingSlots cd
                 \<and> isFull cd = (spec_count approved (iso cd) bs \<ge> 1)"
        unfolding p(2) calendar_day_counts rows approved_count_span pending_count_span
        by simp
    qed
    have srows: "get_or_empty bbd (selectedIso (calendar resp))
          = filter (\<lambda>b. start_at b \<le> selectedIso (calendar resp)
                         \<and> selectedIso (calendar resp) \<le> end_at b) bs"
      using r(4,6,7) by blast
    have sel: "detail_iso (selectedDay resp) = selectedIso (calendar resp)"
      "confirmedCount (selectedDay resp) = spec_count approved (detail_iso (selectedDay resp)) bs"
      "detail_pendingCount (selectedDay resp) = spec_count pending (detail_iso (selectedDay resp)) bs"
      "detail_remainingSlots (selectedDay resp) = max 0 (1 - confirmedCount (selectedDay resp))"
      "0 \<le> detail_remainingSlots (selectedDay resp)"
      unfolding r(8) day_detail_counts srows approved_count_span pending_count_span
      by simp_all
    show ?thesis using r(1,2) isos days sel by blast
  qed
  have dd: "detail_iso (get_calendar_day d dv rid) = dv"
    "confirmedCount (get_calendar_day d dv rid)
         = spec_count approved dv (filter (\<lambda>b. resource_id b = rid) (bookings d))"
    "detail_pendingCount (get_calendar_day d dv rid)
         = spec_count pending dv (filter (\<lambda>b. resource_id b = rid) (bookings d))"
    "detail_remainingSlots (get_calendar_day d dv rid)
         = max 0 (1 - confirmedCount (get_calendar_day d dv rid))"
    "0 \<le> detail_remainingSlots (get_calendar_day d dv rid)"
    unfolding get_calendar_day_def Let_def day_detail_counts get_calendar_day_rows
      approved_count_span pending_count_span
    by simp_all
  show ?thesis using cal dd by blast
qed

lemma ex_anchor_ok: "date_new 2025 6 1 = Inr ex_anchor"
  by code_simp

lemma ex_label:
  "map_sum id (\<lambda>r. nextAvailableLabel (calendar r))
     (build_calendar ex_anchor (bookings ex_db4) None ex_today) = Inr (Some 739411)"
  by code_simp

lemma ex_label_full:
  "map_sum id (\<lambda>r. nextAvailableLabel (calendar r))
     (build_calendar ex_anchor (bookings ex_db4) None \<lparr>year = 2025, month = 6, day = 10\<rparr>)
     = Inr (Some 739415)"
  by code_simp

lemma ex_day_detail:
  "confirmedCount (get_calendar_day ex_db4 739413 ''alder-lake-house'') = 1"
  "detail_pendingCount (get_calendar_day ex_db4 739413 ''alder-lake-house'') = 1"
  "detail_remainingSlots (get_calendar_day ex_db4 739413 ''alder-lake-house'') = 0"
  by code_simp+

theorem C8_day_counts_witness:
  "date_new 2025 6 1 = Inr ex_anchor
   \<and> (\<exists>resp ws. build_calendar ex_anchor (bookings ex_db4) None ex_today = Inr resp
         \<and> monthdatescalendar 2025 6 = Inr ws
         \<and> map (map iso) (weeks (calendar resp)) = map (map toordinal) ws
         \<and> (\<forall>w\<in>set (weeks (calendar resp)). \<forall>cd\<in>set w.
               pendingCount cd = spec_count pending (iso cd) (bookings ex_db4)
             \<and> remainingSlots cd = max 0 (1 - spec_count approved (iso cd) (bookings ex_db4))
             \<and> 0 \<le> remainingSlots cd
             \<and> isFull cd = (spec_count approved (iso cd) (bookings ex_db4) \<ge> 1))
         \<and> detail_iso (selectedDay resp) = selectedIso (calendar resp)
         \<and> confirmedCount (selectedDay resp)
             = spec_count approved (detail_iso (selectedDay resp)) (bookings ex_db4)
         \<and> detail_pendingCount (selectedDay resp)
             = spec_count pending (detail_iso (selectedDay resp)) (bookings ex_db4)
         \<and> detail_remainingSlots (selectedDay resp)
             = max 0 (1 - confirmedCount (selectedDay resp))
         \<and> 0 \<le> detail_remainingSlots (selectedDay resp))
   \<and> spec_count approved 739413
         (filter (\<lambda>b. resource_id b = ''alder-lake-house'') (bookings ex_db4)) = 1
   \<and> spec_count pending 739413
         (filter (\<lambda>b. resource_id b = ''alder-lake-house'') (bookings ex_db4)) = 1
   \<and> detail_remainingSlots (get_calendar_day ex_db4 739413 ''alder-lake-house'') = 0"
proof -
  note inst = C8_day_counts[OF ex_anchor_ok, of "bookings ex_db4" None ex_today ex_db4 739413
      "''alder-lake-house''"]
  have no: "\<not> ((2025::int) = 9999 \<and> (6::int) = 12
      \<and> build_calendar ex_anchor (bookings ex_db4) None ex_today = Inl ValueError)"
    by simp
  from inst no show ?thesis
    by (simp add: ex_anchor_ok ex_day_detail)
qed

text \<open>
  C9 (as stated). For every anchor month the label would designate the earliest free
  day from \<open>max(today, gridStart)\<close> on. For December 9999 it designates none: with
  no booking at all, 9999-12-01 (the day 3652029) is free and not before today, but
  the calendar request fails with ValueError and gives no label.
\<close>

theorem C9_counterexample:
  "month_anchor (MonthInts [9999, 12]) ex_today = Inr \<lparr>year = 9999, month = 12, day = 1\<rparr>
   \<and> toordinal \<lparr>year = 9999, month = 12, day = 1\<rparr> = 3652029
   \<and> toordinal ex_today \<le> 3652029
   \<and> spec_count approved 3652029 (bookings empty_db) < 1
   \<and> get_calendar empty_db (MonthInts [9999, 12]) None ''alder-lake-house'' ex_today
        = Inl ValueError"
  by code_simp

text \<open>
  C9 (amended). For every anchor month but December 9999, for which no calendar is
  built, the next available day is the earliest day from \<open>max(today, gridStart)\<close> to
  \<open>gridEnd\<close> whose \<open>approvedCount\<close> is less than 1, and it is absent exactly when there
  is no such day, in particular when today is after \<open>gridEnd\<close>.
\<close>

theorem C9_next_available:
  assumes "date_new y m 1 = Inr anchor"
  shows "(y = 9999 \<and> m = 12 \<and> build_calendar anchor bs sel today = Inl ValueError)
     \<or> (\<exists>resp ws g0 g1. build_calendar anchor bs sel today = Inr resp
          \<and> monthdatescalendar y m = Inr ws
          \<and> first_first ws = Inr g0 \<and> last_last ws = Inr g1
          \<and> (\<forall>d. (nextAvailableLabel (calendar resp) = Some d) =
                 (max (toordinal today) (toordinal g0) \<le> d \<and> d \<le> toordinal g1
                  \<and> spec_count approved d bs < 1
                  \<and> (\<forall>d'. max (toordinal today) (toordinal g0) \<le> d' \<and> d' < d
                         \<longrightarrow> \<not> spec_count approved d' bs < 1)))
          \<and> ((nextAvailableLabel (calendar resp) = None) =
                 (\<not> (\<exists>d. max (toordinal today) (toordinal g0) \<le> d \<and> d \<le> toordinal g1
                         \<and> spec_count approved d bs < 1)))
          \<and> (toordinal today > toordinal g1 \<longrightarrow> nextAvailableLabel (calendar resp) = None))"
proof (cases "(y, m) = (9999, 12)")
  case True
  then have "anchor = \<lparr>year = 9999, month = 12, day = 1\<rparr>"
    using date_new_Inr[OF assms] by simp
  then show ?thesis using True build_calendar_fails_9999_12 by simp
next
  case False
  obtain resp ds gs ge bbd where r: "build_calendar anchor bs sel today = Inr resp"
      "monthdatescalendar y m = Inr (chunks7 ds)"
      "first_first (chunks7 ds) = Inr (hd ds)" "last_last (chunks7 ds) = Inr (last ds)"
      "gs = toordinal (hd ds)" "ge = toordinal (last ds)"
      "\<forall>d. gs \<le> d \<and> d \<le> ge \<longrightarrow>
          get_or_empty bbd d = filter (\<lambda>b. start_at b \<le> d \<and> d \<le> end_at b) bs"
      "nextAvailableLabel (calendar resp)
          = find (\<lambda>d. approved_count (get_or_empty bbd d) < CAPACITY_PER_DAY)
              [max (toordinal today) gs .. ge]"
    using build_calendar_ok[OF assms False, of bs sel today] by blast
  let ?lo = "max (toordinal today) gs"
  have cong: "find (\<lambda>d. approved_count (get_or_empty bbd d) < CAPACITY_PER_DAY) [?lo .. ge]
      = find (\<lambda>d. spec_count approved d bs < 1) [?lo .. ge]"
  proof (rule find_cong[OF refl])
    fix d assume "d \<in> set [?lo .. ge]"
    then have "gs \<le> d \<and> d \<le> ge" by simp
    then have "get_or_empty bbd d = filter (\<lambda>b. start_at b \<le> d \<and> d \<le> end_at b) bs"
      using r(7) by blast
    then show "(approved_count (get_or_empty bbd d) < CAPACITY_PER_DAY)
        = (spec_count approved d bs < 1)"
      by (simp add: approved_count_span CAPACITY_PER_DAY_def)
  qed
  have lab: "nextAvailableLabel (calendar resp) = find (\<lambda>d. spec_count approved d bs < 1) [?lo .. ge]"
    using r(8) cong by simp
  have s: "\<forall>d. (nextAvailableLabel (calendar resp) = Some d) =
                 (?lo \<le> d \<and> d \<le> ge \<and> spec_count approved d bs < 1
                  \<and> (\<forall>d'. ?lo \<le> d' \<and> d' < d \<longrightarrow> \<not> spec_count approved d' bs < 1))"
    unfolding lab by (simp only: find_upto_Some) simp
  have n: "(nextAvailableLabel (calendar resp) = None) =
                 (\<not> (\<exists>d. ?lo \<le> d \<and> d \<le> ge \<and> spec_count approved d bs < 1))"
    unfolding lab by (simp only: find_upto_None)
  have t: "toordinal today > ge \<longrightarrow> nextAvailableLabel (calendar resp) = None"
    unfolding lab by simp
  have "\<exists>resp ws g0 g1. build_calendar anchor bs sel today = Inr resp
          \<and> monthdatescalendar y m = Inr ws
          \<and> first_first ws = Inr g0 \<and> last_last ws = Inr g1
          \<and> (\<forall>d. (nextAvailableLabel (calendar resp) = Some d) =
                 (max (toordinal today) (toordinal g0) \<le> d \<and> d \<le> toordinal g1
                  \<and> spec_count approved d bs < 1
                  \<and> (\<forall>d'. max (toordinal today) (toordinal g0) \<le> d' \<and> d' < d
                         \<longrightarrow> \<not> spec_count approved d' bs < 1)))
          \<and> ((nextAvailableLabel (calendar resp) = None) =
                 (\<not> (\<exists>d. max (toordinal today) (toordinal g0) \<le> d \<and> d \<le> toordinal g1
                         \<and> spec_count approved d bs < 1)))
          \<and> (toordinal today > toordinal g1 \<longrightarrow> nextAvailableLabel (calendar resp) = None)"
    apply (rule exI[of _ resp], rule exI[of _ "chunks7 ds"], rule exI[of _ "hd ds"],
        rule exI[of _ "last ds"])
    unfolding r(5)[symmetric] r(6)[symmetric]
    using r(1,2,3,4) s n t by blast
  then show ?thesis by (rule disjI2)
qed

theorem C9_next_available_witness:
  "date_new 2025 6 1 = Inr ex_anchor
   \<and> (\<exists>resp ws g0 g1.
         build_calendar ex_anchor (bookings ex_db4) None \<lparr>year = 2025, month = 6, day = 10\<rparr>
           = Inr resp
         \<and> monthdatescalendar 2025 6 = Inr ws
         \<and> first_first ws = Inr g0 \<and> last_last ws = Inr g1
         \<and> nextAvailableLabel (calendar resp) = Some 739415
         \<and> max (toordinal \<lparr>year = 2025, month = 6, day = 10\<rparr>) (toordinal g0) \<le> 739415
         \<and> 739415 \<le> toordinal g1
         \<and> spec_count approved 739415 (bookings ex_db4) < 1)"
proof -
  let ?today = "\<lparr>year = 2025, month = 6, day = 10\<rparr>"
  note inst = C9_next_available[OF ex_anchor_ok, of "bookings ex_db4" None ?today]
  have no: "\<not> ((2025::int) = 9999 \<and> (6::int) = 12
      \<and> build_calendar ex_anchor (bookings ex_db4) None ?today = Inl ValueError)"
    by simp
  from inst no obtain resp ws g0 g1 where r:
      "build_calendar ex_anchor (bookings ex_db4) None ?today = Inr resp"
      "monthdatescalendar 2025 6 = Inr ws"
      "first_first ws = Inr g0" "last_last ws = Inr g1"
      "\<forall>d. (nextAvailableLabel (calendar resp) = Some d) =
             (max (toordinal ?today) (toordinal g0) \<le> d \<and> d \<le> toordinal g1
              \<and> spec_count approved d (bookings ex_db4) < 1
              \<and> (\<forall>d'. max (toordinal ?today) (toordinal g0) \<le> d' \<and> d' < d
                     \<longrightarrow> \<not> spec_count approved d' (bookings ex_db4) < 1))"
    by blast
  have lab: "nextAvailableLabel (calendar resp) = Some 739415"
    using ex_label_full r(1) by simp
  then have "max (toordinal ?today) (toordinal g0) \<le> 739415 \<and> 739415 \<le> toordinal g1
              \<and> spec_count approved 739415 (bookings ex_db4) < 1"
    using r(5) by blast
  then show ?thesis using ex_anchor_ok r(1-4) lab by blast
qed

end
